theory Spec2Isabelle
  imports Complex_Main
begin

section \<open>JavaScript values\<close>

text \<open>
  The diff service works on the values \<open>JSON.parse\<close> returns and on the delta objects of
  \<open>jsondiffpatch\<close>; both are plain JavaScript values. A number is a \<open>real\<close> (\<open>===\<close> on
  numbers is numeric equality, and JSON has no NaN), a string is a \<open>string\<close> (one \<open>char\<close>
  per unit that \<open>.length\<close> counts; a literal of the source beyond ASCII is written as its
  UTF-8 bytes, and no length of such a literal is taken anywhere), an object is its list
  of own properties in enumeration order, each key once. \<open>JUndefined\<close> also stands for an
  absent optional property.
\<close>

datatype jv =
    JUndefined
  | JNull
  | JBool bool
  | JNum real
  | JStr string
  | JArr "jv list"
  | JObj "(string \<times> jv) list"

text \<open>\<open>!x\<close>: the falsy values.\<close>

fun falsy :: "jv \<Rightarrow> bool" where
  "falsy JUndefined = True"
| "falsy JNull = True"
| "falsy (JBool b) = (\<not> b)"
| "falsy (JNum x) = (x = 0)"
| "falsy (JStr s) = (s = [])"
| "falsy (JArr xs) = False"
| "falsy (JObj kvs) = False"

text \<open>A non-negative integer in a template literal or as an array index key: decimal.\<close>

definition digit :: "nat \<Rightarrow> char" where
  "digit d = ''0123456789'' ! d"

function show_nat :: "nat \<Rightarrow> string" where
  "show_nat n = (if n < 10 then [digit n] else show_nat (n div 10) @ [digit (n mod 10)])"
  by pat_completeness auto
termination
  by (relation "measure (\<lambda>n. n)") auto

declare show_nat.simps [simp del]

text \<open>
  \<open>for (const key in node)\<close> together with \<open>node[key]\<close>: the own enumerable properties.
  An object gives its properties, an array and a string their indices, anything else
  (numbers, booleans, \<open>null\<close>, \<open>undefined\<close>) nothing.
\<close>

fun for_in :: "jv \<Rightarrow> (string \<times> jv) list" where
  "for_in (JObj kvs) = kvs"
| "for_in (JArr xs) = zip (map show_nat [0..<length xs]) xs"
| "for_in (JStr s) = zip (map show_nat [0..<length s]) (map (\<lambda>c. JStr [c]) s)"
| "for_in JUndefined = []"
| "for_in JNull = []"
| "for_in (JBool b) = []"
| "for_in (JNum x) = []"

text \<open>
  \<open>node?.[key]\<close> on own properties (inherited ones such as \<open>length\<close> are not modelled:
  the children looked up this way are only handed down the recursion of \<open>traverse\<close>).
\<close>

fun get_prop :: "jv \<Rightarrow> string \<Rightarrow> jv" where
  "get_prop (JObj kvs) key = (case map_of kvs key of Some v \<Rightarrow> v | None \<Rightarrow> JUndefined)"
| "get_prop (JArr xs) key =
     (case find (\<lambda>i. show_nat i = key) [0..<length xs] of
        Some i \<Rightarrow> xs ! i | None \<Rightarrow> JUndefined)"
| "get_prop (JStr s) key =
     (case find (\<lambda>i. show_nat i = key) [0..<length s] of
        Some i \<Rightarrow> JStr [s ! i] | None \<Rightarrow> JUndefined)"
| "get_prop JUndefined key = JUndefined"
| "get_prop JNull key = JUndefined"
| "get_prop (JBool b) key = JUndefined"
| "get_prop (JNum x) key = JUndefined"

text \<open>\<open>Array.prototype.join\<close> on strings.\<close>

fun join :: "string \<Rightarrow> string list \<Rightarrow> string" where
  "join sep [] = []"
| "join sep [x] = x"
| "join sep (x # y # ys) = x @ sep @ join sep (y # ys)"

section \<open>The types of the diff feature (types/diff.ts)\<close>

datatype DiffChangeType = Addition | Deletion | Modification

record DiffLineNumber =
  ln_original :: "nat option"
  ln_modified :: "nat option"

text \<open>The optional \<open>context\<close> of a \<open>DiffChange\<close> is never set by the service and is left out.\<close>

record DiffChange =
  changeId :: string
  changeType :: DiffChangeType
  keyPath :: string
  originalValue :: "jv option"
  modifiedValue :: "jv option"
  lineNumber :: DiffLineNumber
  displayText :: string

record DiffSummary =
  totalChanges :: nat
  additionCount :: nat
  deletionCount :: nat
  modificationCount :: nat
  unchangedKeys :: "nat option"

record DiffOptions =
  ignoreWhitespace :: bool
  ignoreArrayOrder :: bool
  ignoreCase :: bool
  maxDifferences :: int
  formatBeforeDiff :: bool

text \<open>\<open>Partial<DiffOptions>\<close>: every property may be absent.\<close>

record PartialDiffOptions =
  opt_ignoreWhitespace :: "bool option"
  opt_ignoreArrayOrder :: "bool option"
  opt_ignoreCase :: "bool option"
  opt_maxDifferences :: "int option"
  opt_formatBeforeDiff :: "bool option"

datatype DiffStatus = Idle | Calculating | Completed | Error

datatype DiffErrorCode =
  PARSE_ERROR_ORIGINAL | PARSE_ERROR_MODIFIED | CALCULATION_ERROR | TIMEOUT

record DiffError =
  code :: DiffErrorCode
  message :: string
  timestamp :: nat

record DiffComparison =
  comparisonId :: string
  originalJSON :: string
  modifiedJSON :: string
  originalParsed :: jv
  modifiedParsed :: jv
  delta :: jv
  differences :: "DiffChange list"
  summary :: DiffSummary
  options :: DiffOptions
  status :: DiffStatus
  error :: "DiffError option"
  createdAt :: nat
  calculationTime :: "real option"

definition DEFAULT_DIFF_OPTIONS :: DiffOptions where
  "DEFAULT_DIFF_OPTIONS =
     \<lparr>ignoreWhitespace = False, ignoreArrayOrder = False, ignoreCase = False,
      maxDifferences = 500, formatBeforeDiff = True\<rparr>"

definition EMPTY_DIFF_SUMMARY :: DiffSummary where
  "EMPTY_DIFF_SUMMARY =
     \<lparr>totalChanges = 0, additionCount = 0, deletionCount = 0, modificationCount = 0,
      unchangedKeys = Some 0\<rparr>"

section \<open>The host and the libraries\<close>

text \<open>
  What a function of the service gets from outside the repository is a field of the host:
  the JSON functions of the runtime, \<open>diff\<close> of jsondiffpatch, \<open>diffChars\<close> of diff,
  \<open>compare\<close> of fast-json-patch, and the clock readings of one call (\<open>Date.now()\<close> and
  \<open>new Date()\<close> in milliseconds, \<open>performance.now()\<close> at the start and at the end).
  A call that throws returns \<open>Inl\<close> of what it threw.
\<close>

datatype thrown = ErrorInstance string | NotAnError

record Change =
  chg_value :: string
  added :: bool
  removed :: bool

record JSONPatchOperation =
  op_name :: string
  op_path :: string
  op_value :: "jv option"
  op_from :: "string option"

record host =
  JSON_parse :: "string \<Rightarrow> thrown + jv"
  JSON_stringify :: "jv \<Rightarrow> string"
  jsondiffpatch_diff :: "jv \<Rightarrow> jv \<Rightarrow> jv"
  jsdiff_diffChars :: "string \<Rightarrow> string \<Rightarrow> Change list"
  fast_json_patch_compare :: "jv \<Rightarrow> jv \<Rightarrow> thrown + JSONPatchOperation list"
  Date_now :: nat
  performance_now_start :: real
  performance_now_end :: real

section \<open>The diff service (services/jsonDiff.ts)\<close>

record ValidationResult =
  isValid :: bool
  parsed :: jv
  validation_error :: "string option"
  errorLocation :: "(nat \<times> nat) option"

definition validateJSON :: "host \<Rightarrow> string \<Rightarrow> ValidationResult" where
  "validateJSON h jsonString =
     (case JSON_parse h jsonString of
        Inr p \<Rightarrow>
          \<lparr>isValid = True, parsed = p, validation_error = None, errorLocation = None\<rparr>
      | Inl e \<Rightarrow>
          (let errorMessage = (case e of ErrorInstance m \<Rightarrow> m | NotAnError \<Rightarrow> ''Unknown error'')
           in \<lparr>isValid = False, parsed = JUndefined, validation_error = Some errorMessage,
               errorLocation = None\<rparr>))"

text \<open>
  The three non-ASCII pieces of the display texts, as their UTF-8 bytes: the labels
  \<open>(U+65B0 U+589E)\<close> and \<open>(U+522A U+9664)\<close> after a leading blank, and the arrow
  \<open>U+2192\<close> between two blanks.
\<close>

definition label_added :: string where
  "label_added = '' ('' @ [CHR 0xE6, CHR 0x96, CHR 0xB0, CHR 0xE5, CHR 0xA2, CHR 0x9E] @ '')''"

definition label_removed :: string where
  "label_removed = '' ('' @ [CHR 0xE5, CHR 0x88, CHR 0xAA, CHR 0xE9, CHR 0x99, CHR 0xA4] @ '')''"

definition arrow :: string where
  "arrow = '' '' @ [CHR 0xE2, CHR 0x86, CHR 0x92] @ '' ''"

text \<open>
  The branch \<open>Array.isArray(value)\<close> of \<open>traverse\<close>: one, two or three elements (the third
  being \<open>0\<close>) push a change and advance the line; any other array is passed over.
  \<open>changes\<close> is the array the closure pushes to, \<open>stringify\<close> is \<open>JSON.stringify\<close>.
\<close>

definition traverse_array :: "(jv \<Rightarrow> string) \<Rightarrow> string \<Rightarrow> jv list \<Rightarrow> nat \<Rightarrow> DiffChange list
    \<Rightarrow> nat \<times> DiffChange list" where
  "traverse_array stringify kp vs currentLine changes =
     (if length vs = 1 then
        (Suc currentLine, changes @
          [\<lparr>changeId = ''diff-'' @ show_nat (length changes), changeType = Addition,
            keyPath = kp, originalValue = None, modifiedValue = Some (vs ! 0),
            lineNumber = \<lparr>ln_original = None, ln_modified = Some currentLine\<rparr>,
            displayText = kp @ '': '' @ stringify (vs ! 0) @ label_added\<rparr>])
      else if length vs = 2 then
        (Suc currentLine, changes @
          [\<lparr>changeId = ''diff-'' @ show_nat (length changes), changeType = Modification,
            keyPath = kp, originalValue = Some (vs ! 0), modifiedValue = Some (vs ! 1),
            lineNumber = \<lparr>ln_original = Some currentLine, ln_modified = Some currentLine\<rparr>,
            displayText = kp @ '': '' @ stringify (vs ! 0) @ arrow @ stringify (vs ! 1)\<rparr>])
      else if length vs = 3 \<and> vs ! 2 = JNum 0 then
        (Suc currentLine, changes @
          [\<lparr>changeId = ''diff-'' @ show_nat (length changes), changeType = Deletion,
            keyPath = kp, originalValue = Some (vs ! 0), modifiedValue = None,
            lineNumber = \<lparr>ln_original = Some currentLine, ln_modified = None\<rparr>,
            displayText = kp @ '': '' @ stringify (vs ! 0) @ label_removed\<rparr>])
      else (currentLine, changes))"

text \<open>
  The measure of the recursion of \<open>traverse\<close>: a container is larger than all its
  properties, and a string (whose indices the loop visits without ever descending) counts
  its characters.
\<close>

fun node_size :: "jv \<Rightarrow> nat" where
  "node_size (JArr xs) = Suc (sum_list (map (\<lambda>x. Suc (node_size x)) xs))"
| "node_size (JObj kvs) = Suc (sum_list (map (\<lambda>(k, v). Suc (node_size v)) kvs))"
| "node_size (JStr s) = 0"
| "node_size JUndefined = 0"
| "node_size JNull = 0"
| "node_size (JBool b) = 0"
| "node_size (JNum x) = 0"

definition entries_size :: "(string \<times> jv) list \<Rightarrow> nat" where
  "entries_size kvs = sum_list (map (\<lambda>(k, v). Suc (node_size v)) kvs)"

definition delta_size :: "jv \<Rightarrow> nat" where
  "delta_size d = (case d of JStr s \<Rightarrow> length s | _ \<Rightarrow> node_size d)"

lemma entries_size_Nil: "entries_size [] = 0"
  by (simp add: entries_size_def)

lemma entries_size_Cons: "entries_size ((k, v) # kvs) = Suc (node_size v) + entries_size kvs"
  by (simp add: entries_size_def)

lemma entries_size_zip:
  "length ks = length xs \<Longrightarrow>
   entries_size (zip ks xs) = sum_list (map (\<lambda>x. Suc (node_size x)) xs)"
  by (induction ks xs rule: list_induct2) (simp_all add: entries_size_def)

lemma entries_size_for_in: "entries_size (for_in node) \<le> delta_size node"
proof (cases node)
  case (JStr s)
  have "entries_size (zip (map show_nat [0..<length s]) (map (\<lambda>c. JStr [c]) s))
        = sum_list (map (\<lambda>x. Suc (node_size x)) (map (\<lambda>c. JStr [c]) s))"
    by (rule entries_size_zip) simp
  also have "\<dots> = length s"
    by (induction s) simp_all
  finally show ?thesis using JStr by (simp add: delta_size_def)
next
  case (JArr xs)
  have "entries_size (zip (map show_nat [0..<length xs]) xs)
        = sum_list (map (\<lambda>x. Suc (node_size x)) xs)"
    by (rule entries_size_zip) simp
  then show ?thesis using JArr by (simp add: delta_size_def)
qed (simp_all add: entries_size_def delta_size_def)

text \<open>
  \<open>traverse\<close>, the closure of \<open>parseDeltaToDiffChanges\<close>: \<open>traverse_loop\<close> is the body of its
  \<open>for\<close> loop over the properties still to visit. The pushed changes and the current line
  are passed along and returned.
\<close>

function traverse :: "(jv \<Rightarrow> string) \<Rightarrow> jv \<Rightarrow> jv \<Rightarrow> jv \<Rightarrow> string list \<Rightarrow> nat \<Rightarrow> DiffChange list
    \<Rightarrow> nat \<times> DiffChange list"
  and traverse_loop :: "(jv \<Rightarrow> string) \<Rightarrow> (string \<times> jv) list \<Rightarrow> jv \<Rightarrow> jv \<Rightarrow> string list \<Rightarrow> nat
    \<Rightarrow> DiffChange list \<Rightarrow> nat \<times> DiffChange list" where
  "traverse stringify deltaNode origNode modNode path lineNum changes =
     traverse_loop stringify (for_in deltaNode) origNode modNode path lineNum changes"
| "traverse_loop stringify [] origNode modNode path currentLine changes =
     (currentLine, changes)"
| "traverse_loop stringify ((key, val) # rest) origNode modNode path currentLine changes =
     (if key = ''_t'' then
        traverse_loop stringify rest origNode modNode path currentLine changes
      else
        (let currentPath = (if length path > 0 then path @ [key] else [key]);
             kp = join ''.'' currentPath
         in case val of
              JArr vs \<Rightarrow>
                (case traverse_array stringify kp vs currentLine changes of
                   (currentLine', changes') \<Rightarrow>
                     traverse_loop stringify rest origNode modNode path currentLine' changes')
            | JObj kvs \<Rightarrow>
                (case traverse stringify val (get_prop origNode key) (get_prop modNode key)
                        currentPath currentLine changes of
                   (currentLine', changes') \<Rightarrow>
                     traverse_loop stringify rest origNode modNode path currentLine' changes')
            | _ \<Rightarrow> traverse_loop stringify rest origNode modNode path currentLine changes))"
  by pat_completeness auto
termination
proof (relation "measures
    [\<lambda>x. case x of Inl (s, d, r) \<Rightarrow> delta_size d | Inr (s, kvs, r) \<Rightarrow> entries_size kvs,
     \<lambda>x. case x of Inl _ \<Rightarrow> 1 | Inr _ \<Rightarrow> 0]", goal_cases)
  case (2 stringify deltaNode origNode modNode path lineNum changes)
  show ?case
    using entries_size_for_in [of deltaNode] by auto
qed (auto simp: entries_size_Cons delta_size_def)

definition parseDeltaToDiffChanges :: "(jv \<Rightarrow> string) \<Rightarrow> jv \<Rightarrow> jv \<Rightarrow> jv \<Rightarrow> DiffChange list" where
  "parseDeltaToDiffChanges stringify d original modified =
     (if falsy d then []
      else snd (traverse stringify d original modified [] 1 []))"

definition calculateSummary :: "DiffChange list \<Rightarrow> DiffSummary" where
  "calculateSummary ds =
     \<lparr>totalChanges = length ds,
      additionCount = length (filter (\<lambda>d. changeType d = Addition) ds),
      deletionCount = length (filter (\<lambda>d. changeType d = Deletion) ds),
      modificationCount = length (filter (\<lambda>d. changeType d = Modification) ds),
      unchangedKeys = None\<rparr>"

text \<open>\<open>{ ...DEFAULT_DIFF_OPTIONS, ...options }\<close>: a property that is present overrides.\<close>

definition mergeOptions :: "PartialDiffOptions \<Rightarrow> DiffOptions" where
  "mergeOptions opts =
     \<lparr>ignoreWhitespace =
        (case opt_ignoreWhitespace opts of Some b \<Rightarrow> b
         | None \<Rightarrow> ignoreWhitespace DEFAULT_DIFF_OPTIONS),
      ignoreArrayOrder =
        (case opt_ignoreArrayOrder opts of Some b \<Rightarrow> b
         | None \<Rightarrow> ignoreArrayOrder DEFAULT_DIFF_OPTIONS),
      ignoreCase =
        (case opt_ignoreCase opts of Some b \<Rightarrow> b | None \<Rightarrow> ignoreCase DEFAULT_DIFF_OPTIONS),
      maxDifferences =
        (case opt_maxDifferences opts of Some n \<Rightarrow> n
         | None \<Rightarrow> maxDifferences DEFAULT_DIFF_OPTIONS),
      formatBeforeDiff =
        (case opt_formatBeforeDiff opts of Some b \<Rightarrow> b
         | None \<Rightarrow> formatBeforeDiff DEFAULT_DIFF_OPTIONS)\<rparr>"

text \<open>The Comparison of the two early returns: one side is not valid JSON.\<close>

definition errorComparison :: "host \<Rightarrow> string \<Rightarrow> string \<Rightarrow> DiffOptions \<Rightarrow> DiffErrorCode
    \<Rightarrow> ValidationResult \<Rightarrow> DiffComparison" where
  "errorComparison h originalJSON' modifiedJSON' mergedOptions c validation =
     \<lparr>comparisonId = show_nat (Date_now h),
      originalJSON = originalJSON', modifiedJSON = modifiedJSON',
      originalParsed = JUndefined, modifiedParsed = JUndefined, delta = JUndefined,
      differences = [],
      summary = EMPTY_DIFF_SUMMARY,
      options = mergedOptions,
      status = Error,
      error = Some \<lparr>code = c,
        message = (case validation_error validation of
                     None \<Rightarrow> ''Invalid JSON''
                   | Some m \<Rightarrow> if m = [] then ''Invalid JSON'' else m),
        timestamp = Date_now h\<rparr>,
      createdAt = Date_now h,
      calculationTime = None\<rparr>"

definition calculateDiffSync :: "host \<Rightarrow> string \<Rightarrow> string \<Rightarrow> PartialDiffOptions \<Rightarrow> DiffComparison" where
  "calculateDiffSync h originalJSON' modifiedJSON' opts =
     (let mergedOptions = mergeOptions opts;
          originalValidation = validateJSON h originalJSON'
      in if \<not> isValid originalValidation then
           errorComparison h originalJSON' modifiedJSON' mergedOptions PARSE_ERROR_ORIGINAL
             originalValidation
         else
           (let modifiedValidation = validateJSON h modifiedJSON'
            in if \<not> isValid modifiedValidation then
                 errorComparison h originalJSON' modifiedJSON' mergedOptions PARSE_ERROR_MODIFIED
                   modifiedValidation
               else
                 (let originalParsed' = parsed originalValidation;
                      modifiedParsed' = parsed modifiedValidation;
                      delta' = jsondiffpatch_diff h originalParsed' modifiedParsed';
                      differences' = parseDeltaToDiffChanges (JSON_stringify h)
                        (if falsy delta' then JObj [] else delta') originalParsed' modifiedParsed';
                      summary' = calculateSummary differences'
                  in \<lparr>comparisonId = show_nat (Date_now h),
                      originalJSON = originalJSON', modifiedJSON = modifiedJSON',
                      originalParsed = originalParsed', modifiedParsed = modifiedParsed',
                      delta = delta',
                      differences = differences',
                      summary = summary',
                      options = mergedOptions,
                      status = Completed,
                      error = None,
                      createdAt = Date_now h,
                      calculationTime =
                        Some (performance_now_end h - performance_now_start h)\<rparr>)))"

section \<open>Character-level diff (services/jsonDiff.ts, feature 007)\<close>

datatype CharChangeType = CharAdd | CharRemove | CharEqual

record CharChange =
  charType :: CharChangeType
  char_value :: string
  startIndex :: int
  char_length :: nat

definition convertToCharChange :: "Change \<Rightarrow> int \<Rightarrow> CharChange" where
  "convertToCharChange change startIndex' =
     \<lparr>charType = (if added change then CharAdd
                   else if removed change then CharRemove else CharEqual),
      char_value = chg_value change,
      startIndex = (if added change then - 1 else startIndex'),
      char_length = length (chg_value change)\<rparr>"

text \<open>
  The \<open>for\<close> loop of \<open>calculateCharLevelDiff\<close> over the changes still to convert, with the
  index into the original text and the list pushed so far.
\<close>

fun char_loop :: "Change list \<Rightarrow> int \<Rightarrow> CharChange list \<Rightarrow> CharChange list" where
  "char_loop [] currentIndex charChanges = charChanges"
| "char_loop (change # rest) currentIndex charChanges =
     char_loop rest
       (if \<not> added change then currentIndex + int (length (chg_value change))
        else currentIndex)
       (charChanges @ [convertToCharChange change currentIndex])"

definition calculateCharLevelDiff :: "host \<Rightarrow> string \<Rightarrow> string \<Rightarrow> CharChange list" where
  "calculateCharLevelDiff h originalText modifiedText =
     char_loop (jsdiff_diffChars h originalText modifiedText) 0 []"

section \<open>Export (services/diffExport.ts)\<close>

definition generateJSONPatch :: "host \<Rightarrow> DiffComparison \<Rightarrow> thrown + JSONPatchOperation list" where
  "generateJSONPatch h comparison =
     (if falsy (originalParsed comparison) \<or> falsy (modifiedParsed comparison) then Inr []
      else fast_json_patch_compare h (originalParsed comparison) (modifiedParsed comparison))"

section \<open>The structural delta engine, from the spec\<close>

text \<open>
  Modelled from the spec: the structural delta engine (section 4.2), which the service
  imports as \<open>diff\<close> from the library jsondiffpatch; its code is not under src/. The
  spec's contract is \<open>diff(original, modified)\<close> giving a Delta or nothing
  (\<open>JUndefined\<close> here): deeply equal values have no delta; objects are compared key by key,
  arrays index by index; everything else that differs, a change of type included, is
  the entry \<open>[old, new]\<close>; past the depth cap subtrees are replaced wholesale. The
  service calls \<open>diff\<close> without options, so arrays follow the default, index-aligned
  strategy.

  The first definition is the spec's deep structural equality: the same scalar, or
  arrays and objects of the same length with recursively equal members.
\<close>

function deep_equal :: "jv \<Rightarrow> jv \<Rightarrow> bool" where
  "deep_equal (JArr xs) (JArr ys) =
     (length xs = length ys \<and> list_all (\<lambda>(x, y). deep_equal x y) (zip xs ys))"
| "deep_equal (JObj a) (JObj b) =
     (length a = length b \<and>
      list_all (\<lambda>(k, v). case map_of b k of None \<Rightarrow> False | Some w \<Rightarrow> deep_equal v w) a)"
| "deep_equal (JArr xs) (JObj b) = False"
| "deep_equal (JObj a) (JArr ys) = False"
| "deep_equal (JArr xs) JUndefined = False"
| "deep_equal (JArr xs) JNull = False"
| "deep_equal (JArr xs) (JBool c) = False"
| "deep_equal (JArr xs) (JNum n) = False"
| "deep_equal (JArr xs) (JStr s) = False"
| "deep_equal (JObj a) JUndefined = False"
| "deep_equal (JObj a) JNull = False"
| "deep_equal (JObj a) (JBool c) = False"
| "deep_equal (JObj a) (JNum n) = False"
| "deep_equal (JObj a) (JStr s) = False"
| "deep_equal JUndefined y = (y = JUndefined)"
| "deep_equal JNull y = (y = JNull)"
| "deep_equal (JBool c) y = (y = JBool c)"
| "deep_equal (JNum n) y = (y = JNum n)"
| "deep_equal (JStr s) y = (y = JStr s)"
  by pat_completeness auto
termination
proof (relation "measure (\<lambda>(x, y). size x)", goal_cases)
  case 1
  show ?case by simp
next
  case (2 xs ys z x y)
  then have "x \<in> set xs" by (auto dest: set_zip_leftD)
  then show ?case by (auto simp: less_Suc_eq_le size_list_estimation')
next
  case (3 a b z k v w)
  then have "(k, v) \<in> set a" by simp
  then have "size_prod (\<lambda>_. 0) size (k, v) \<le> size_list (size_prod (\<lambda>_. 0) size) a"
    by (rule size_list_estimation') simp
  then show ?case by simp
qed

text \<open>
  Modelled from the spec: the entries of an object delta (section 4.2, objects), over
  the union of the keys of both sides. A key of the original only is a deletion
  \<open>[old, 0, 0]\<close>, a key of the modified only is an addition \<open>[new]\<close>, a key of both
  with differing values carries the delta of the two values (\<open>rec\<close>).
\<close>

definition object_entries :: "(jv \<Rightarrow> jv \<Rightarrow> jv) \<Rightarrow> (string \<times> jv) list \<Rightarrow> (string \<times> jv) list
    \<Rightarrow> (string \<times> jv) list" where
  "object_entries rec a b =
     concat (map (\<lambda>(k, v). case map_of b k of
                    None \<Rightarrow> [(k, JArr [v, JNum 0, JNum 0])]
                  | Some w \<Rightarrow> if deep_equal v w then [] else [(k, rec v w)]) a)
     @ concat (map (\<lambda>(k, w). case map_of a k of None \<Rightarrow> [(k, JArr [w])] | Some v \<Rightarrow> []) b)"

text \<open>
  Modelled from the spec: an array is index-aligned (section 4.2, arrays), treated as an
  object with the keys \<open>0 .. length - 1\<close>.
\<close>

definition index_entries :: "jv list \<Rightarrow> (string \<times> jv) list" where
  "index_entries xs = zip (map show_nat [0..<length xs]) xs"

text \<open>
  Modelled from the spec: values that differ and are not descended into (section 4.2,
  scalars and depth guard) give the two-element entry.
\<close>

definition scalar_change :: "jv \<Rightarrow> jv \<Rightarrow> jv" where
  "scalar_change x y = (if deep_equal x y then JUndefined else JArr [x, y])"

text \<open>
  Modelled from the spec: the recursion of section 4.2, with the depth still allowed. At
  depth zero the subtrees are replaced wholesale. An array delta carries the marker
  \<open>_t\<close> that the data model (section 3) asks for.
\<close>

primrec diff_depth :: "nat \<Rightarrow> jv \<Rightarrow> jv \<Rightarrow> jv" where
  "diff_depth 0 x y = scalar_change x y"
| "diff_depth (Suc d) x y =
     (if deep_equal x y then JUndefined
      else case (x, y) of
             (JObj a, JObj b) \<Rightarrow> JObj (object_entries (diff_depth d) a b)
           | (JArr xs, JArr ys) \<Rightarrow>
               JObj (object_entries (diff_depth d) (index_entries xs) (index_entries ys)
                     @ [(''_t'', JStr ''a'')])
           | _ \<Rightarrow> JArr [x, y])"

text \<open>
  Modelled from the spec: the practical cap of the recursion depth (section 3 names
  1000).
\<close>

definition depth_cap :: nat where
  "depth_cap = 1000"

text \<open>Modelled from the spec: \<open>diff(original, modified)\<close>, the contract of section 4.2.\<close>

definition diff :: "jv \<Rightarrow> jv \<Rightarrow> jv" where
  "diff original modified = diff_depth depth_cap original modified"

section \<open>The character diff engine, from the spec\<close>

text \<open>
  Modelled from the spec: contract A of the character-level diff engine (section 4.5),
  which the service imports as \<open>diffChars\<close> from the library diff; its code is not under
  src/. It computes a minimal edit script between the two strings, character by
  character, as a sequence of equal, insert and delete runs. The first definition is
  one step of such a script.
\<close>

datatype edit = Keep char | Del char | Ins char

text \<open>
  Modelled from the spec: the cost a minimal script minimises, its number of insertions
  and deletions.
\<close>

fun edit_cost :: "edit list \<Rightarrow> nat" where
  "edit_cost [] = 0"
| "edit_cost (Keep c # es) = edit_cost es"
| "edit_cost (Del c # es) = Suc (edit_cost es)"
| "edit_cost (Ins c # es) = Suc (edit_cost es)"

text \<open>
  Modelled from the spec: a script of least cost (section 4.5, a minimal edit script).
  Equal heads are kept; otherwise the cheaper of deleting the head of the old text and
  inserting the head of the new one is taken, the deletion first on a tie (scenario 5
  of section 8 has the removal before the addition).
\<close>

fun edit_script :: "string \<Rightarrow> string \<Rightarrow> edit list" where
  "edit_script [] ys = map Ins ys"
| "edit_script (x # xs) [] = map Del (x # xs)"
| "edit_script (x # xs) (y # ys) =
     (if x = y then Keep x # edit_script xs ys
      else (let d = Del x # edit_script xs (y # ys);
                i = Ins y # edit_script (x # xs) ys
            in if edit_cost d \<le> edit_cost i then d else i))"

text \<open>
  Modelled from the spec: the script as runs (section 4.5, equal, insert and delete
  runs). One edit is a run of one character.
\<close>

fun run_of :: "edit \<Rightarrow> Change" where
  "run_of (Keep c) = \<lparr>chg_value = [c], added = False, removed = False\<rparr>"
| "run_of (Del c) = \<lparr>chg_value = [c], added = False, removed = True\<rparr>"
| "run_of (Ins c) = \<lparr>chg_value = [c], added = True, removed = False\<rparr>"

text \<open>Modelled from the spec: adjacent edits of one kind are one run.\<close>

fun add_edit :: "edit \<Rightarrow> Change list \<Rightarrow> Change list" where
  "add_edit e [] = [run_of e]"
| "add_edit e (r # rs) =
     (if added (run_of e) = added r \<and> removed (run_of e) = removed r
      then r\<lparr>chg_value := chg_value (run_of e) @ chg_value r\<rparr> # rs
      else run_of e # r # rs)"

text \<open>Modelled from the spec: \<open>charDiff\<close> before its conversion, the runs of the script.\<close>

definition diffChars :: "string \<Rightarrow> string \<Rightarrow> Change list" where
  "diffChars oldStr newStr = foldr add_edit (edit_script oldStr newStr) []"

section \<open>A host for the examples\<close>

text \<open>
  The examples run on a host whose libraries are the two engines above. Its parser is
  the table of \<open>JSON.parse\<close> on the texts the examples use (any other text is answered
  as a syntax error and is never asked for), and its \<open>JSON.stringify\<close> renders \<open>null\<close>,
  the booleans and the non-negative integers as the runtime does.
\<close>

definition text_a1 :: string where
  \<open>text_a1 = ''{"a":1}''\<close>

definition text_a1_b2_c3 :: string where
  \<open>text_a1_b2_c3 = ''{"a":1,"b":2,"c":3}''\<close>

definition sample_parse :: "string \<Rightarrow> thrown + jv" where
  "sample_parse s =
     (if s = ''{}'' then Inr (JObj [])
      else if s = text_a1 then Inr (JObj [(''a'', JNum 1)])
      else if s = text_a1_b2_c3 then
        Inr (JObj [(''a'', JNum 1), (''b'', JNum 2), (''c'', JNum 3)])
      else if s = ''[1]'' then Inr (JArr [JNum 1])
      else if s = ''5'' then Inr (JNum 5)
      else if s = ''0'' then Inr (JNum 0)
      else if s = ''not json'' then
        Inl (ErrorInstance ''Unexpected token o in JSON at position 1'')
      else Inl (ErrorInstance ''Unexpected end of JSON input''))"

definition sample_stringify :: "jv \<Rightarrow> string" where
  "sample_stringify v =
     (case v of
        JNull \<Rightarrow> ''null''
      | JBool b \<Rightarrow> (if b then ''true'' else ''false'')
      | JNum x \<Rightarrow> show_nat (nat \<lfloor>x\<rfloor>)
      | _ \<Rightarrow> [])"

definition sample_host :: host where
  "sample_host =
     \<lparr>JSON_parse = sample_parse,
      JSON_stringify = sample_stringify,
      jsondiffpatch_diff = diff,
      jsdiff_diffChars = diffChars,
      fast_json_patch_compare = (\<lambda>x y. Inl NotAnError),
      Date_now = 0,
      performance_now_start = 0,
      performance_now_end = 0\<rparr>"

definition no_options :: PartialDiffOptions where
  "no_options =
     \<lparr>opt_ignoreWhitespace = None, opt_ignoreArrayOrder = None, opt_ignoreCase = None,
      opt_maxDifferences = None, opt_formatBeforeDiff = None\<rparr>"

definition limit_one :: PartialDiffOptions where
  "limit_one = no_options\<lparr>opt_maxDifferences := Some 1\<rparr>"

section \<open>Predicates of the statements\<close>

text \<open>
  What \<open>JSON.parse\<close> can return: a JSON value has no \<open>undefined\<close> in it, and an object
  has each key once.
\<close>

fun json_value :: "jv \<Rightarrow> bool" where
  "json_value JUndefined = False"
| "json_value JNull = True"
| "json_value (JBool b) = True"
| "json_value (JNum x) = True"
| "json_value (JStr s) = True"
| "json_value (JArr xs) = list_all json_value xs"
| "json_value (JObj kvs) = (distinct (map fst kvs) \<and> list_all (\<lambda>(k, v). json_value v) kvs)"

text \<open>
  The display text of a change, by its type: the key path, a colon, and the rendering
  of the new value with the label of an addition, of the old value with the label of a
  deletion, or of the old value, the arrow and the new value for a modification.
\<close>

definition display_ok :: "(jv \<Rightarrow> string) \<Rightarrow> DiffChange \<Rightarrow> bool" where
  "display_ok stringify c =
     (case changeType c of
        Addition \<Rightarrow>
          (case modifiedValue c of
             Some new \<Rightarrow> displayText c = keyPath c @ '': '' @ stringify new @ label_added
           | None \<Rightarrow> False)
      | Deletion \<Rightarrow>
          (case originalValue c of
             Some old \<Rightarrow> displayText c = keyPath c @ '': '' @ stringify old @ label_removed
           | None \<Rightarrow> False)
      | Modification \<Rightarrow>
          (case (originalValue c, modifiedValue c) of
             (Some old, Some new) \<Rightarrow>
               displayText c = keyPath c @ '': '' @ stringify old @ arrow @ stringify new
           | _ \<Rightarrow> False))"

text \<open>
  What the flattener makes of an array entry: an addition, a modification, a deletion,
  or nothing.
\<close>

definition classify :: "jv list \<Rightarrow> DiffChangeType option" where
  "classify vs =
     (if length vs = 1 then Some Addition
      else if length vs = 2 then Some Modification
      else if length vs = 3 \<and> vs ! 2 = JNum 0 then Some Deletion
      else None)"

text \<open>
  The number of changes of one type among the entries of a delta: the entries under the
  marker key do not count, a nested delta counts its own entries.
\<close>

fun entry_count :: "DiffChangeType \<Rightarrow> jv \<Rightarrow> nat"
  and entries_count :: "DiffChangeType \<Rightarrow> (string \<times> jv) list \<Rightarrow> nat" where
  "entry_count t (JArr vs) = (if classify vs = Some t then 1 else 0)"
| "entry_count t (JObj kvs) = entries_count t kvs"
| "entry_count t JUndefined = 0"
| "entry_count t JNull = 0"
| "entry_count t (JBool b) = 0"
| "entry_count t (JNum x) = 0"
| "entry_count t (JStr s) = 0"
| "entries_count t [] = 0"
| "entries_count t ((k, v) # kvs) =
     (if k = ''_t'' then 0 else entry_count t v) + entries_count t kvs"

text \<open>The number of changes of one type in a list of changes.\<close>

definition count_type :: "DiffChangeType \<Rightarrow> DiffChange list \<Rightarrow> nat" where
  "count_type t chs = length (filter (\<lambda>c. changeType c = t) chs)"

text \<open>The type of a change seen from the other direction.\<close>

fun reverse_type :: "DiffChangeType \<Rightarrow> DiffChangeType" where
  "reverse_type Addition = Deletion"
| "reverse_type Deletion = Addition"
| "reverse_type Modification = Modification"

text \<open>Two values that are both objects or both arrays.\<close>

fun same_container :: "jv \<Rightarrow> jv \<Rightarrow> bool" where
  "same_container (JObj a) (JObj b) = True"
| "same_container (JArr xs) (JArr ys) = True"
| "same_container x y = False"

text \<open>
  The text an edit script starts from and the text it arrives at: the script is a script
  between these two.
\<close>

fun old_text :: "edit list \<Rightarrow> string" where
  "old_text [] = []"
| "old_text (Keep c # es) = c # old_text es"
| "old_text (Del c # es) = c # old_text es"
| "old_text (Ins c # es) = old_text es"

fun new_text :: "edit list \<Rightarrow> string" where
  "new_text [] = []"
| "new_text (Keep c # es) = c # new_text es"
| "new_text (Del c # es) = new_text es"
| "new_text (Ins c # es) = c # new_text es"

section \<open>Facts about the orchestrator\<close>

lemma calculateDiffSync_cases:
  "calculateDiffSync h a b opts =
     (case JSON_parse h a of
        Inl e \<Rightarrow> errorComparison h a b (mergeOptions opts) PARSE_ERROR_ORIGINAL (validateJSON h a)
      | Inr x \<Rightarrow>
          (case JSON_parse h b of
             Inl e \<Rightarrow> errorComparison h a b (mergeOptions opts) PARSE_ERROR_MODIFIED (validateJSON h b)
           | Inr y \<Rightarrow>
               \<lparr>comparisonId = show_nat (Date_now h),
                originalJSON = a, modifiedJSON = b,
                originalParsed = x, modifiedParsed = y,
                delta = jsondiffpatch_diff h x y,
                differences = parseDeltaToDiffChanges (JSON_stringify h)
                  (if falsy (jsondiffpatch_diff h x y) then JObj [] else jsondiffpatch_diff h x y) x y,
                summary = calculateSummary (parseDeltaToDiffChanges (JSON_stringify h)
                  (if falsy (jsondiffpatch_diff h x y) then JObj [] else jsondiffpatch_diff h x y) x y),
                options = mergeOptions opts,
                status = Completed,
                error = None,
                createdAt = Date_now h,
                calculationTime = Some (performance_now_end h - performance_now_start h)\<rparr>))"
  by (simp add: calculateDiffSync_def validateJSON_def Let_def split: sum.splits)

lemma calculateSummary_total:
  "totalChanges (calculateSummary ds) =
   additionCount (calculateSummary ds) + deletionCount (calculateSummary ds)
   + modificationCount (calculateSummary ds)"
proof (induction ds)
  case Nil
  show ?case by (simp add: calculateSummary_def)
next
  case (Cons d ds)
  then show ?case
    by (cases "changeType d") (simp_all add: calculateSummary_def)
qed

lemma summary_errorComparison:
  "summary (errorComparison h a b mo c v) = EMPTY_DIFF_SUMMARY"
  by (simp add: errorComparison_def)

lemma validateJSON_Inl:
  "JSON_parse h a = Inl e \<Longrightarrow>
   validateJSON h a = \<lparr>isValid = False, parsed = JUndefined,
     validation_error = Some (case e of ErrorInstance m \<Rightarrow> m | NotAnError \<Rightarrow> ''Unknown error''),
     errorLocation = None\<rparr>"
  by (simp add: validateJSON_def)

section \<open>Facts about the flattener\<close>

text \<open>
  A property of changes that every push keeps holds of all the changes \<open>traverse\<close>
  returns, by induction over its recursion.
\<close>

lemma traverse_invariant:
  "(\<forall>kp vs l chs. list_all P chs \<longrightarrow> list_all P (snd (traverse_array S kp vs l chs))) \<Longrightarrow>
   list_all P chs \<Longrightarrow> list_all P (snd (traverse S d orig modi p l chs))"
  "(\<forall>kp vs l chs. list_all P chs \<longrightarrow> list_all P (snd (traverse_array S kp vs l chs))) \<Longrightarrow>
   list_all P chs \<Longrightarrow> list_all P (snd (traverse_loop S kvs orig modi p l chs))"
proof (induction S d orig modi p l chs and S kvs orig modi p l chs
       rule: traverse_traverse_loop.induct)
  case (1 stringify deltaNode origNode modNode path lineNum changes)
  then show ?case by simp
next
  case (2 stringify origNode modNode path currentLine changes)
  then show ?case by simp
next
  case (3 stringify key val rest origNode modNode path currentLine changes)
  let ?cp = "if length path > 0 then path @ [key] else [key]"
  note step = "3.prems"(1)
  show ?case
  proof (cases "key = ''_t''")
    case True
    then show ?thesis using 3 by simp
  next
    case False
    show ?thesis
    proof (cases val)
      case (JArr vs)
      obtain l' chs' where r:
        "(l', chs') = traverse_array stringify (join ''.'' ?cp) vs currentLine changes"
        by (metis surj_pair)
      have "list_all P chs'"
        using step "3.prems"(2) r by (metis snd_conv)
      then have "list_all P (snd (traverse_loop stringify rest origNode modNode path l' chs'))"
        using "3.IH"(7) [OF False refl refl JArr r step] by simp
      then show ?thesis
        using False JArr r [symmetric] by (simp add: Let_def)
    next
      case (JObj kvs)
      obtain l' chs' where r:
        "(l', chs') = traverse stringify val (get_prop origNode key) (get_prop modNode key)
            ?cp currentLine changes"
        by (metis surj_pair)
      have "list_all P chs'"
        using "3.IH"(8) [OF False refl refl JObj step "3.prems"(2)] r by (metis snd_conv)
      then have "list_all P (snd (traverse_loop stringify rest origNode modNode path l' chs'))"
        using "3.IH"(9) [OF False refl refl JObj r step] by simp
      then show ?thesis
        using False JObj r [symmetric] by (simp add: Let_def del: traverse.simps)
    qed (use 3 False in simp_all)
  qed
qed

lemma traverse_array_display:
  "list_all (display_ok S) chs \<Longrightarrow> list_all (display_ok S) (snd (traverse_array S kp vs l chs))"
  by (simp add: traverse_array_def display_ok_def)

lemma parse_empty_delta: "parseDeltaToDiffChanges S (JObj []) x y = []"
  by (simp add: parseDeltaToDiffChanges_def)

lemma traverse_array_count:
  "count_type t (snd (traverse_array S kp vs l chs))
   = count_type t chs + (if classify vs = Some t then 1 else 0)"
  by (cases t) (auto simp: traverse_array_def classify_def count_type_def)

lemma traverse_count:
  "count_type t (snd (traverse S d orig modi p l chs))
   = count_type t chs + entries_count t (for_in d)"
  "count_type t (snd (traverse_loop S kvs orig modi p l chs))
   = count_type t chs + entries_count t kvs"
proof (induction S d orig modi p l chs and S kvs orig modi p l chs
       rule: traverse_traverse_loop.induct)
  case (1 stringify deltaNode origNode modNode path lineNum changes)
  then show ?case by simp
next
  case (2 stringify origNode modNode path currentLine changes)
  then show ?case by simp
next
  case (3 stringify key val rest origNode modNode path currentLine changes)
  let ?cp = "if length path > 0 then path @ [key] else [key]"
  show ?case
  proof (cases "key = ''_t''")
    case True
    then show ?thesis using 3 by simp
  next
    case False
    show ?thesis
    proof (cases val)
      case (JArr vs)
      obtain l' chs' where r:
        "(l', chs') = traverse_array stringify (join ''.'' ?cp) vs currentLine changes"
        by (metis surj_pair)
      have "count_type t chs' = count_type t changes + (if classify vs = Some t then 1 else 0)"
        using traverse_array_count [of t stringify "join ''.'' ?cp" vs currentLine changes] r
        by (metis snd_conv)
      moreover have "count_type t (snd (traverse_loop stringify rest origNode modNode path l' chs'))
            = count_type t chs' + entries_count t rest"
        using "3.IH"(7) [OF False refl refl JArr r] by simp
      ultimately show ?thesis
        using False JArr r [symmetric] by (simp add: Let_def)
    next
      case (JObj kvs)
      obtain l' chs' where r:
        "(l', chs') = traverse stringify val (get_prop origNode key) (get_prop modNode key)
            ?cp currentLine changes"
        by (metis surj_pair)
      have "count_type t chs' = count_type t changes + entries_count t kvs"
        using "3.IH"(8) [OF False refl refl JObj] r JObj by (metis snd_conv for_in.simps(1))
      moreover have "count_type t (snd (traverse_loop stringify rest origNode modNode path l' chs'))
            = count_type t chs' + entries_count t rest"
        using "3.IH"(9) [OF False refl refl JObj r] by simp
      ultimately show ?thesis
        using False JObj r [symmetric] by (simp add: Let_def del: traverse.simps)
    qed (use 3 False in simp_all)
  qed
qed

lemma parseDelta_count:
  "\<not> falsy d \<Longrightarrow>
   count_type t (parseDeltaToDiffChanges S d x y) = entries_count t (for_in d)"
  using traverse_count(1) [of t S d x y "[]" 1 "[]"]
  by (simp add: parseDeltaToDiffChanges_def count_type_def del: traverse.simps)

section \<open>Facts about the delta engine\<close>

lemma deep_equal_refl: "json_value v \<Longrightarrow> deep_equal v v"
proof (induction v)
  case (JArr xs)
  then show ?case
    by (auto simp: list_all_iff zip_same)
next
  case (JObj kvs)
  have "deep_equal v v \<and> map_of kvs k = Some v" if "(k, v) \<in> set kvs" for k v
  proof -
    have "json_value v" using JObj.prems that by (auto simp: list_all_iff)
    moreover have "v \<in> Basic_BNFs.snds (k, v)" by simp
    ultimately have "deep_equal v v" using JObj.IH that by blast
    moreover have "map_of kvs k = Some v" using JObj.prems that by simp
    ultimately show ?thesis by simp
  qed
  then show ?case by (auto simp: list_all_iff)
qed simp_all

lemma depth_cap_Suc: "depth_cap = Suc 999"
  by (simp add: depth_cap_def)

lemma diff_unfold:
  "diff x y =
     (if deep_equal x y then JUndefined
      else case (x, y) of
             (JObj a, JObj b) \<Rightarrow> JObj (object_entries (diff_depth 999) a b)
           | (JArr xs, JArr ys) \<Rightarrow>
               JObj (object_entries (diff_depth 999) (index_entries xs) (index_entries ys)
                     @ [(''_t'', JStr ''a'')])
           | _ \<Rightarrow> JArr [x, y])"
  unfolding diff_def depth_cap_Suc by (simp only: diff_depth.simps)

lemma diff_equal: "deep_equal x y \<Longrightarrow> diff x y = JUndefined"
  by (simp add: diff_unfold)

lemma json_value_member:
  "json_value (JObj a) \<Longrightarrow> (k, v) \<in> set a \<Longrightarrow> json_value v \<and> map_of a k = Some v"
  by (auto simp: list_all_iff)

lemma deep_equal_keys:
  assumes "deep_equal (JObj a) (JObj b)" and "distinct (map fst a)" and "distinct (map fst b)"
  shows "fst ` set a = fst ` set b"
proof -
  have sub: "fst ` set a \<subseteq> fst ` set b"
  proof
    fix k assume "k \<in> fst ` set a"
    then obtain v where "(k, v) \<in> set a" by auto
    then obtain w where "map_of b k = Some w"
      using assms(1) by (auto simp: list_all_iff split: option.splits)
    then show "k \<in> fst ` set b" by (force dest: map_of_SomeD)
  qed
  have "card (fst ` set a) = length a"
    using assms(2) by (metis distinct_card length_map set_map)
  moreover have "card (fst ` set b) = length b"
    using assms(3) by (metis distinct_card length_map set_map)
  moreover have "length a = length b" using assms(1) by simp
  ultimately show ?thesis
    using sub by (simp add: card_subset_eq)
qed

lemma deep_equal_sym: "json_value x \<Longrightarrow> json_value y \<Longrightarrow> deep_equal x y \<Longrightarrow> deep_equal y x"
proof (induction x arbitrary: y)
  case (JArr xs)
  then obtain ys where y: "y = JArr ys" by (cases y) simp_all
  have len: "length xs = length ys" using JArr.prems(3) y by simp
  have "deep_equal v u" if "(v, u) \<in> set (zip ys xs)" for u v
  proof -
    have m: "(u, v) \<in> set (zip xs ys)"
      using that by (metis in_set_zip fst_conv snd_conv)
    then have "u \<in> set xs" "v \<in> set ys" by (auto dest: set_zip_leftD set_zip_rightD)
    moreover have "deep_equal u v" using JArr.prems(3) y m by (auto simp: list_all_iff)
    ultimately show ?thesis
      using JArr.IH [of u v] JArr.prems(1,2) y by (auto simp: list_all_iff)
  qed
  then show ?case using len y by (auto simp: list_all_iff)
next
  case (JObj a)
  then obtain b where y: "y = JObj b" by (cases y) simp_all
  have len: "length a = length b" using JObj.prems(3) y by simp
  have keys: "fst ` set a = fst ` set b"
    using deep_equal_keys [of a b] JObj.prems y by simp
  have "case map_of a k of None \<Rightarrow> False | Some v \<Rightarrow> deep_equal w v"
    if kw: "(k, w) \<in> set b" for k w
  proof -
    have "k \<in> fst ` set a" using keys kw by force
    then obtain v where kv: "(k, v) \<in> set a" by auto
    have v: "json_value v" "map_of a k = Some v"
      using json_value_member [OF JObj.prems(1) kv] by simp_all
    have w: "json_value w" "map_of b k = Some w"
      using json_value_member [of b k w] JObj.prems(2) y kw by simp_all
    have "deep_equal v w"
      using JObj.prems(3) y kv w(2) by (auto simp: list_all_iff)
    moreover have "v \<in> Basic_BNFs.snds (k, v)" by simp
    ultimately have "deep_equal w v"
      using JObj.IH [OF kv _ v(1) w(1)] by blast
    then show ?thesis using v(2) by simp
  qed
  then show ?case using len y by (auto simp: list_all_iff)
qed (cases y; simp)+

lemma deep_equal_sym_iff:
  "json_value x \<Longrightarrow> json_value y \<Longrightarrow> deep_equal y x = deep_equal x y"
  using deep_equal_sym by blast

lemma entries_count_sum:
  "entries_count t kvs = (\<Sum>(k, v)\<leftarrow>kvs. if k = ''_t'' then 0 else entry_count t v)"
  by (induction kvs) auto

lemma entries_count_append:
  "entries_count t (xs @ ys) = entries_count t xs + entries_count t ys"
  by (simp add: entries_count_sum)

lemma entries_count_concat:
  "entries_count t (concat (map g xs)) = (\<Sum>x\<leftarrow>xs. entries_count t (g x))"
  by (induction xs) (simp_all add: entries_count_append)

lemma sum_pick:
  fixes H :: "'v \<Rightarrow> nat" and G :: "'k \<Rightarrow> 'v \<Rightarrow> nat"
  assumes "distinct (map fst b)" and "\<And>w. G k0 w = 0"
  shows "(\<Sum>(k, w)\<leftarrow>b. if k = k0 then H w else G k w)
         = (case map_of b k0 of None \<Rightarrow> 0 | Some w \<Rightarrow> H w) + (\<Sum>(k, w)\<leftarrow>b. G k w)"
  using assms(1)
proof (induction b)
  case Nil
  show ?case by simp
next
  case (Cons kw b)
  obtain k w where kw: "kw = (k, w)" by (cases kw)
  show ?case
  proof (cases "k = k0")
    case True
    then have "map_of b k0 = None"
      using Cons.prems kw by (simp add: map_of_eq_None_iff)
    then show ?thesis
      using Cons kw True assms(2) by simp
  next
    case False
    then show ?thesis using Cons kw by simp
  qed
qed

lemma sum_common_swap:
  fixes F :: "'k \<Rightarrow> 'v \<Rightarrow> 'v \<Rightarrow> nat"
  assumes "distinct (map fst a)" and "distinct (map fst b)"
  shows "(\<Sum>(k, v)\<leftarrow>a. case map_of b k of None \<Rightarrow> 0 | Some w \<Rightarrow> F k v w)
         = (\<Sum>(k, w)\<leftarrow>b. case map_of a k of None \<Rightarrow> 0 | Some v \<Rightarrow> F k v w)"
  using assms(1)
proof (induction a)
  case Nil
  show ?case by (simp add: case_prod_unfold)
next
  case (Cons kv a)
  obtain k0 v0 where kv: "kv = (k0, v0)" by (cases kv)
  have none: "map_of a k0 = None"
    using Cons.prems kv by (simp add: map_of_eq_None_iff)
  have "(\<Sum>(k, w)\<leftarrow>b. case map_of (kv # a) k of None \<Rightarrow> 0 | Some v \<Rightarrow> F k v w)
        = (\<Sum>(k, w)\<leftarrow>b. if k = k0 then F k0 v0 w
                          else (case map_of a k of None \<Rightarrow> 0 | Some v \<Rightarrow> F k v w))"
    by (rule arg_cong [where f = sum_list]) (auto simp: kv)
  also have "\<dots> = (case map_of b k0 of None \<Rightarrow> 0 | Some w \<Rightarrow> F k0 v0 w)
        + (\<Sum>(k, w)\<leftarrow>b. case map_of a k of None \<Rightarrow> 0 | Some v \<Rightarrow> F k v w)"
    by (rule sum_pick [OF assms(2)]) (simp add: none)
  finally show ?case
    using Cons kv by simp
qed

lemma sum_list_cong_pairs:
  "(\<And>k v. (k, v) \<in> set a \<Longrightarrow> f k v = g k v) \<Longrightarrow>
   (\<Sum>(k, v)\<leftarrow>a. f k v) = (\<Sum>(k, v)\<leftarrow>a. g k v)"
  by (rule arg_cong [where f = sum_list]) auto

lemma reverse_type_iff:
  "(reverse_type t = Deletion) = (t = Addition)"
  "(reverse_type t = Addition) = (t = Deletion)"
  "(reverse_type t = Modification) = (t = Modification)"
  "(Deletion = reverse_type t) = (t = Addition)"
  "(Addition = reverse_type t) = (t = Deletion)"
  "(Modification = reverse_type t) = (Modification = t)"
  by (cases t; simp)+

lemma classify_entries:
  "classify [v, JNum 0, JNum 0] = Some Deletion"
  "classify [w] = Some Addition"
  "classify [v, w] = Some Modification"
  by (simp_all add: classify_def)

lemma object_entries_sym:
  assumes da: "distinct (map fst a)" and db: "distinct (map fst b)"
    and pw: "\<And>k v w. (k, v) \<in> set a \<Longrightarrow> (k, w) \<in> set b \<Longrightarrow>
          deep_equal w v = deep_equal v w
          \<and> (\<not> deep_equal v w \<longrightarrow>
               entry_count t (rec v w) = entry_count (reverse_type t) (rec' w v))"
  shows "entries_count t (object_entries rec a b)
         = entries_count (reverse_type t) (object_entries rec' b a)"
proof -
  let ?F = "\<lambda>k v w. if deep_equal v w \<or> k = ''_t'' then 0 else entry_count t (rec v w)"
  let ?F' = "\<lambda>k w v. if deep_equal w v \<or> k = ''_t'' then 0
                       else entry_count (reverse_type t) (rec' w v)"
  let ?del = "\<lambda>k. if k = ''_t'' then 0 else if t = Deletion then 1 else (0::nat)"
  let ?add = "\<lambda>k. if k = ''_t'' then 0 else if t = Addition then 1 else (0::nat)"
  let ?Ma = "\<lambda>(k, v). case map_of b k of None \<Rightarrow> ?del k | Some w \<Rightarrow> (0::nat)"
  let ?Mb = "\<lambda>(k, w). case map_of a k of None \<Rightarrow> ?add k | Some v \<Rightarrow> (0::nat)"
  let ?Ca = "\<lambda>(k, v). case map_of b k of None \<Rightarrow> 0 | Some w \<Rightarrow> ?F k v w"
  let ?Cb = "\<lambda>(k, w). case map_of a k of None \<Rightarrow> 0 | Some v \<Rightarrow> ?F' k w v"
  have lhs: "entries_count t (object_entries rec a b)
        = (sum_list (map ?Ma a) + sum_list (map ?Ca a)) + sum_list (map ?Mb b)"
  proof -
    have "(\<Sum>kv\<leftarrow>a. entries_count t
            (case kv of (k, v) \<Rightarrow> case map_of b k of
                     None \<Rightarrow> [(k, JArr [v, JNum 0, JNum 0])]
                   | Some w \<Rightarrow> if deep_equal v w then [] else [(k, rec v w)]))
          = (\<Sum>kv\<leftarrow>a. ?Ma kv + ?Ca kv)"
      by (rule arg_cong [where f = sum_list])
         (auto simp: classify_entries split: option.splits)
    moreover have "(\<Sum>kw\<leftarrow>b. entries_count t
            (case kw of (k, w) \<Rightarrow> case map_of a k of None \<Rightarrow> [(k, JArr [w])] | Some v \<Rightarrow> []))
          = sum_list (map ?Mb b)"
      by (rule arg_cong [where f = sum_list])
         (auto simp: classify_entries split: option.splits)
    ultimately show ?thesis
      by (simp add: object_entries_def entries_count_append entries_count_concat
          sum_list_addf)
  qed
  have rhs: "entries_count (reverse_type t) (object_entries rec' b a)
        = (sum_list (map ?Mb b) + sum_list (map ?Cb b)) + sum_list (map ?Ma a)"
  proof -
    have "(\<Sum>kw\<leftarrow>b. entries_count (reverse_type t)
            (case kw of (k, w) \<Rightarrow> case map_of a k of
                     None \<Rightarrow> [(k, JArr [w, JNum 0, JNum 0])]
                   | Some v \<Rightarrow> if deep_equal w v then [] else [(k, rec' w v)]))
          = (\<Sum>kw\<leftarrow>b. ?Mb kw + ?Cb kw)"
      by (rule arg_cong [where f = sum_list])
         (auto simp: classify_entries reverse_type_iff split: option.splits)
    moreover have "(\<Sum>kv\<leftarrow>a. entries_count (reverse_type t)
            (case kv of (k, v) \<Rightarrow> case map_of b k of None \<Rightarrow> [(k, JArr [v])] | Some w \<Rightarrow> []))
          = sum_list (map ?Ma a)"
      by (rule arg_cong [where f = sum_list])
         (auto simp: classify_entries reverse_type_iff split: option.splits)
    ultimately show ?thesis
      by (simp add: object_entries_def entries_count_append entries_count_concat
          sum_list_addf)
  qed
  have "sum_list (map ?Ca a)
        = (\<Sum>(k, w)\<leftarrow>b. case map_of a k of None \<Rightarrow> 0 | Some v \<Rightarrow> ?F k v w)"
    by (rule sum_common_swap [OF da db])
  also have "\<dots> = sum_list (map ?Cb b)"
  proof (rule sum_list_cong_pairs)
    fix k w assume kw: "(k, w) \<in> set b"
    show "(case map_of a k of None \<Rightarrow> 0 | Some v \<Rightarrow> ?F k v w)
          = (case map_of a k of None \<Rightarrow> 0 | Some v \<Rightarrow> ?F' k w v)"
    proof (cases "map_of a k")
      case None
      then show ?thesis by simp
    next
      case (Some v)
      then have "(k, v) \<in> set a" by (rule map_of_SomeD)
      from pw [OF this kw] Some show ?thesis by auto
    qed
  qed
  finally show ?thesis using lhs rhs by simp
qed

lemma digit_value: "n < 10 \<Longrightarrow> of_char (digit n) - 48 = n"
proof -
  assume "n < 10"
  then have "n \<in> {0, 1, 2, 3, 4, 5, 6, 7, 8, 9}"
    by auto
  then show ?thesis
    by (auto simp: digit_def)
qed

lemma show_nat_read:
  "foldl (\<lambda>acc c. 10 * acc + (of_char c - 48)) 0 (show_nat n) = n"
proof (induction n rule: show_nat.induct)
  case (1 n)
  show ?case
  proof (cases "n < 10")
    case True
    then show ?thesis
      by (subst show_nat.simps) (simp add: digit_value)
  next
    case False
    then show ?thesis
      using 1 by (subst show_nat.simps) (simp add: digit_value)
  qed
qed

lemma show_nat_inj: "inj show_nat"
  by (rule injI) (metis show_nat_read)

lemma index_entries_keys: "distinct (map fst (index_entries xs))"
  by (simp add: index_entries_def distinct_map inj_on_subset [OF show_nat_inj])

lemma index_entries_member: "(k, v) \<in> set (index_entries xs) \<Longrightarrow> v \<in> set xs"
  by (auto simp: index_entries_def dest: set_zip_rightD)

lemma same_container_cases:
  "same_container v w \<Longrightarrow>
   (\<exists>a b. v = JObj a \<and> w = JObj b) \<or> (\<exists>xs ys. v = JArr xs \<and> w = JArr ys)"
  by (cases v; cases w; simp)

lemma same_container_sym: "same_container w v = same_container v w"
  by (cases v; cases w; simp)

lemma diff_depth_other:
  "\<not> same_container v w \<Longrightarrow> diff_depth (Suc n) v w = scalar_change v w"
  by (cases v; cases w; simp add: scalar_change_def del: deep_equal.simps)

lemma scalar_change_count:
  "\<not> deep_equal v w \<Longrightarrow>
   entry_count t (scalar_change v w) = (if t = Modification then 1 else 0)"
  by (simp add: scalar_change_def classify_entries)

lemma diff_depth_sym:
  "json_value v \<Longrightarrow> json_value w \<Longrightarrow> \<not> deep_equal v w \<Longrightarrow>
   entry_count t (diff_depth n v w) = entry_count (reverse_type t) (diff_depth n w v)"
proof (induction n arbitrary: v w t)
  case 0
  then have "\<not> deep_equal w v" using deep_equal_sym by blast
  then show ?case
    using 0 by (simp add: scalar_change_count reverse_type_iff)
next
  case (Suc n)
  have nwv: "\<not> deep_equal w v" using Suc.prems deep_equal_sym by blast
  have step: "entries_count t (object_entries (diff_depth n) a b)
              = entries_count (reverse_type t) (object_entries (diff_depth n) b a)"
    if "distinct (map fst a)" "distinct (map fst b)"
       "\<And>k x. (k, x) \<in> set a \<Longrightarrow> json_value x" "\<And>k x. (k, x) \<in> set b \<Longrightarrow> json_value x"
    for a b
  proof (rule object_entries_sym [OF that(1,2)])
    fix k x y assume "(k, x) \<in> set a" "(k, y) \<in> set b"
    then have j: "json_value x" "json_value y" using that(3,4) by blast+
    show "deep_equal y x = deep_equal x y
          \<and> (\<not> deep_equal x y \<longrightarrow>
               entry_count t (diff_depth n x y)
               = entry_count (reverse_type t) (diff_depth n y x))"
      using Suc.IH [OF j] deep_equal_sym_iff [OF j] by simp
  qed
  show ?case
  proof (cases "same_container v w")
    case False
    then have "\<not> same_container w v" by (simp add: same_container_sym)
    then show ?thesis
      using False Suc.prems(3) nwv
      by (simp add: diff_depth_other scalar_change_count reverse_type_iff
          del: diff_depth.simps)
  next
    case True
    then consider a b where "v = JObj a" "w = JObj b"
      | xs ys where "v = JArr xs" "w = JArr ys"
      using same_container_cases by blast
    then show ?thesis
    proof cases
      case 1
      have "entries_count t (object_entries (diff_depth n) a b)
            = entries_count (reverse_type t) (object_entries (diff_depth n) b a)"
        using Suc.prems 1
        by (intro step) (auto simp: list_all_iff)
      moreover have "diff_depth (Suc n) v w = JObj (object_entries (diff_depth n) a b)"
        using Suc.prems(3) 1 by (simp del: deep_equal.simps)
      moreover have "diff_depth (Suc n) w v = JObj (object_entries (diff_depth n) b a)"
        using nwv 1 by (simp del: deep_equal.simps)
      ultimately show ?thesis by simp
    next
      case 2
      have "entries_count t (object_entries (diff_depth n) (index_entries xs) (index_entries ys))
            = entries_count (reverse_type t)
                (object_entries (diff_depth n) (index_entries ys) (index_entries xs))"
        using Suc.prems 2
        by (intro step index_entries_keys)
           (auto simp: list_all_iff dest: index_entries_member)
      moreover have "diff_depth (Suc n) v w
          = JObj (object_entries (diff_depth n) (index_entries xs) (index_entries ys)
                  @ [(''_t'', JStr ''a'')])"
        using Suc.prems(3) 2 by (simp del: deep_equal.simps)
      moreover have "diff_depth (Suc n) w v
          = JObj (object_entries (diff_depth n) (index_entries ys) (index_entries xs)
                  @ [(''_t'', JStr ''a'')])"
        using nwv 2 by (simp del: deep_equal.simps)
      ultimately show ?thesis by (simp add: entries_count_append)
    qed
  qed
qed

lemma diff_depth_container:
  "same_container x y \<Longrightarrow> \<not> deep_equal x y \<Longrightarrow>
   \<exists>es. diff_depth (Suc n) x y = JObj es"
  by (cases x; cases y; simp del: deep_equal.simps)

section \<open>Facts about the character diff\<close>

lemma char_loop_append: "char_loop chs k acc = acc @ char_loop chs k []"
proof (induction chs arbitrary: k acc)
  case Nil
  show ?case by simp
next
  case (Cons ch chs)
  show ?case
    using Cons.IH [of _ "acc @ [convertToCharChange ch k]"]
          Cons.IH [of _ "[convertToCharChange ch k]"]
    by simp
qed

lemma char_loop_Cons:
  "char_loop (ch # chs) k [] =
   convertToCharChange ch k
   # char_loop chs (if \<not> added ch then k + int (length (chg_value ch)) else k) []"
  using char_loop_append [of chs _ "[convertToCharChange ch k]"] by simp

lemma char_loop_not_removed:
  "concat (map char_value (filter (\<lambda>c. charType c \<noteq> CharRemove) (char_loop chs k [])))
   = concat (map chg_value (filter (\<lambda>r. added r \<or> \<not> removed r) chs))"
  by (induction chs arbitrary: k)
     (simp_all add: char_loop_Cons convertToCharChange_def del: char_loop.simps(2))

lemma char_loop_not_added:
  "concat (map char_value (filter (\<lambda>c. charType c \<noteq> CharAdd) (char_loop chs k [])))
   = concat (map chg_value (filter (\<lambda>r. \<not> added r) chs))"
  by (induction chs arbitrary: k)
     (simp_all add: char_loop_Cons convertToCharChange_def del: char_loop.simps(2))

lemma add_edit_values:
  "concat (map chg_value (filter P (add_edit e rs)))
   = concat (map chg_value (filter P (run_of e # rs)))"
  if "\<And>r s. P (r\<lparr>chg_value := s\<rparr>) = P r"
proof (cases rs)
  case Nil
  then show ?thesis by simp
next
  case (Cons r rs')
  show ?thesis
  proof (cases "added (run_of e) = added r \<and> removed (run_of e) = removed r")
    case True
    then have "run_of e = r\<lparr>chg_value := chg_value (run_of e)\<rparr>"
      by (cases e) simp_all
    then have "P (run_of e) = P r"
      using that by metis
    then show ?thesis using True Cons that by simp
  next
    case False
    then show ?thesis using Cons by auto
  qed
qed

lemma runs_values:
  assumes "\<And>r s. P (r\<lparr>chg_value := s\<rparr>) = P r"
  shows "concat (map chg_value (filter P (foldr add_edit es [])))
         = concat (map chg_value (filter P (map run_of es)))"
proof (induction es)
  case Nil
  show ?case by simp
next
  case (Cons e es)
  have "concat (map chg_value (filter P (foldr add_edit (e # es) [])))
        = concat (map chg_value (filter P (run_of e # foldr add_edit es [])))"
    using add_edit_values [of P e "foldr add_edit es []"] assms by simp
  then show ?case using Cons.IH by simp
qed

lemma edit_script_new:
  "concat (map chg_value (filter (\<lambda>r. added r \<or> \<not> removed r) (map run_of (edit_script a b)))) = b"
proof (induction a b rule: edit_script.induct)
  case (1 ys)
  show ?case by (induction ys) simp_all
next
  case (2 x xs)
  have "concat (map chg_value (filter (\<lambda>r. added r \<or> \<not> removed r) (map run_of (map Del zs)))) = []" for zs
    by (induction zs) simp_all
  from this [of "x # xs"] show ?case by simp
next
  case (3 x xs y ys)
  then show ?case by (simp add: Let_def)
qed

lemma edit_script_old:
  "concat (map chg_value (filter (\<lambda>r. \<not> added r) (map run_of (edit_script a b)))) = a"
proof (induction a b rule: edit_script.induct)
  case (1 ys)
  show ?case by (induction ys) simp_all
next
  case (2 x xs)
  have "concat (map chg_value (filter (\<lambda>r. \<not> added r) (map run_of (map Del zs)))) = zs" for zs
    by (induction zs) simp_all
  from this [of "x # xs"] show ?case by simp
next
  case (3 x xs y ys)
  then show ?case by (simp add: Let_def)
qed

lemma diffChars_new:
  "concat (map chg_value (filter (\<lambda>r. added r \<or> \<not> removed r) (diffChars a b))) = b"
  unfolding diffChars_def
  by (subst runs_values) (simp_all add: edit_script_new)

lemma diffChars_old:
  "concat (map chg_value (filter (\<lambda>r. \<not> added r) (diffChars a b))) = a"
  unfolding diffChars_def
  by (subst runs_values) (simp_all add: edit_script_old)

lemma diffChars_abc_abd:
  "diffChars ''abc'' ''abd'' =
     [\<lparr>chg_value = ''ab'', added = False, removed = False\<rparr>,
      \<lparr>chg_value = ''c'', added = False, removed = True\<rparr>,
      \<lparr>chg_value = ''d'', added = True, removed = False\<rparr>]"
  by (simp add: diffChars_def)

text \<open>
  The engine of the model meets the contract of the spec: its script is a script between
  the two texts, and no script between them costs less.
\<close>

lemma edit_script_texts:
  "old_text (edit_script a b) = a \<and> new_text (edit_script a b) = b"
proof (induction a b rule: edit_script.induct)
  case (1 ys)
  show ?case by (induction ys) simp_all
next
  case (2 x xs)
  have "old_text (map Del zs) = zs \<and> new_text (map Del zs) = []" for zs
    by (induction zs) simp_all
  from this [of "x # xs"] show ?case by simp
next
  case (3 x xs y ys)
  then show ?case by (simp add: Let_def)
qed

lemma drop_new_head:
  "new_text es = y # ys \<Longrightarrow>
   \<exists>es'. old_text es' = old_text es \<and> new_text es' = ys \<and> edit_cost es' \<le> Suc (edit_cost es)"
proof (induction es rule: new_text.induct)
  case 1
  then show ?case by simp
next
  case (2 c es)
  then have "old_text (Del c # es) = old_text (Keep c # es) \<and> new_text (Del c # es) = ys
             \<and> edit_cost (Del c # es) \<le> Suc (edit_cost (Keep c # es))"
    by simp
  then show ?case by blast
next
  case (3 c es)
  then obtain es' where
    "old_text es' = old_text es \<and> new_text es' = ys \<and> edit_cost es' \<le> Suc (edit_cost es)"
    by auto
  then have "old_text (Del c # es') = old_text (Del c # es) \<and> new_text (Del c # es') = ys
             \<and> edit_cost (Del c # es') \<le> Suc (edit_cost (Del c # es))"
    by simp
  then show ?case by blast
next
  case (4 c es)
  then have "old_text es = old_text (Ins c # es) \<and> new_text es = ys
             \<and> edit_cost es \<le> Suc (edit_cost (Ins c # es))"
    by simp
  then show ?case by blast
qed

lemma drop_old_head:
  "old_text es = x # xs \<Longrightarrow>
   \<exists>es'. old_text es' = xs \<and> new_text es' = new_text es \<and> edit_cost es' \<le> Suc (edit_cost es)"
proof (induction es rule: old_text.induct)
  case 1
  then show ?case by simp
next
  case (2 c es)
  then have "old_text (Ins c # es) = xs \<and> new_text (Ins c # es) = new_text (Keep c # es)
             \<and> edit_cost (Ins c # es) \<le> Suc (edit_cost (Keep c # es))"
    by simp
  then show ?case by blast
next
  case (3 c es)
  then have "old_text es = xs \<and> new_text es = new_text (Del c # es)
             \<and> edit_cost es \<le> Suc (edit_cost (Del c # es))"
    by simp
  then show ?case by blast
next
  case (4 c es)
  then obtain es' where
    "old_text es' = xs \<and> new_text es' = new_text es \<and> edit_cost es' \<le> Suc (edit_cost es)"
    by auto
  then have "old_text (Ins c # es') = xs \<and> new_text (Ins c # es') = new_text (Ins c # es)
             \<and> edit_cost (Ins c # es') \<le> Suc (edit_cost (Ins c # es))"
    by simp
  then show ?case by blast
qed

lemma cost_map_Ins: "edit_cost (map Ins ys) = length ys"
  by (induction ys) simp_all

lemma cost_map_Del: "edit_cost (map Del xs) = length xs"
  by (induction xs) simp_all

lemma cost_lower_new: "old_text es = [] \<Longrightarrow> length (new_text es) \<le> edit_cost es"
  by (induction es rule: old_text.induct) simp_all

lemma cost_lower_old: "new_text es = [] \<Longrightarrow> length (old_text es) \<le> edit_cost es"
  by (induction es rule: new_text.induct) simp_all

lemma edit_script_minimal:
  "old_text es = a \<Longrightarrow> new_text es = b \<Longrightarrow> edit_cost (edit_script a b) \<le> edit_cost es"
proof (induction a b arbitrary: es rule: edit_script.induct)
  case (1 ys)
  then show ?case using cost_lower_new [of es] by (simp add: cost_map_Ins)
next
  case (2 x xs)
  then show ?case using cost_lower_old [of es] cost_map_Del [of "x # xs"] by simp
next
  case (3 x xs y ys)
  show ?case
  proof (cases es)
    case Nil
    then show ?thesis using "3.prems" by simp
  next
    case (Cons e es')
    show ?thesis
    proof (cases e)
      case (Keep c)
      then have xy: "x = y" "old_text es' = xs" "new_text es' = ys"
        using "3.prems" Cons by simp_all
      then show ?thesis
        using "3.IH"(1) [OF xy(1) xy(2,3)] Cons Keep by simp
    next
      case (Del c)
      then have t: "old_text es' = xs" "new_text es' = y # ys"
        using "3.prems" Cons by simp_all
      show ?thesis
      proof (cases "x = y")
        case True
        obtain es'' where "old_text es'' = xs" "new_text es'' = ys"
            "edit_cost es'' \<le> Suc (edit_cost es')"
          using drop_new_head [OF t(2)] t(1) by auto
        then show ?thesis
          using "3.IH"(1) [OF True, of es''] True Cons Del by simp
      next
        case False
        then show ?thesis
          using "3.IH"(2) [OF False, of es'] t Cons Del by (simp add: Let_def)
      qed
    next
      case (Ins c)
      then have t: "old_text es' = x # xs" "new_text es' = ys"
        using "3.prems" Cons by simp_all
      show ?thesis
      proof (cases "x = y")
        case True
        obtain es'' where "old_text es'' = xs" "new_text es'' = ys"
            "edit_cost es'' \<le> Suc (edit_cost es')"
          using drop_old_head [OF t(1)] t(2) by auto
        then show ?thesis
          using "3.IH"(1) [OF True, of es''] True Cons Ins by simp
      next
        case False
        then show ?thesis
          using "3.IH"(3) [OF False refl, of es'] t Cons Ins by (simp add: Let_def)
      qed
    qed
  qed
qed

lemma char_loop_index:
  "i < length (char_loop chs k []) \<Longrightarrow>
   (charType (char_loop chs k [] ! i) = CharAdd \<longrightarrow> startIndex (char_loop chs k [] ! i) = - 1)
   \<and> (charType (char_loop chs k [] ! i) \<noteq> CharAdd \<longrightarrow>
        startIndex (char_loop chs k [] ! i)
        = k + int (sum_list (map char_length
              (filter (\<lambda>d. charType d \<noteq> CharAdd) (take i (char_loop chs k []))))))
   \<and> char_length (char_loop chs k [] ! i) = length (char_value (char_loop chs k [] ! i))"
proof (induction chs arbitrary: i k)
  case Nil
  then show ?case by simp
next
  case (Cons ch chs)
  show ?case
  proof (cases i)
    case 0
    then show ?thesis
      by (simp add: char_loop_Cons convertToCharChange_def del: char_loop.simps(2))
  next
    case (Suc j)
    let ?k = "if \<not> added ch then k + int (length (chg_value ch)) else k"
    from Cons.prems Suc have j: "j < length (char_loop chs ?k [])"
      by (simp add: char_loop_Cons del: char_loop.simps(2))
    from Cons.IH [OF j] Suc show ?thesis
      by (simp add: char_loop_Cons convertToCharChange_def del: char_loop.simps(2))
  qed
qed

section \<open>The examples, evaluated\<close>

lemma sample_delta_additions:
  "diff (JObj [(''a'', JNum 1)]) (JObj [(''a'', JNum 1), (''b'', JNum 2), (''c'', JNum 3)])
   = JObj [(''b'', JArr [JNum 2]), (''c'', JArr [JNum 3])]"
  by (simp add: diff_unfold object_entries_def)

lemma sample_delta_root: "diff (JArr [JNum 1]) (JNum 5) = JArr [JArr [JNum 1], JNum 5]"
  by (simp add: diff_unfold)

lemma sample_delta_root_rev: "diff (JNum 5) (JArr [JNum 1]) = JArr [JNum 5, JArr [JNum 1]]"
  by (simp add: diff_unfold)

lemma show_nat_digits:
  "show_nat 0 = ''0''" "show_nat 1 = ''1''" "show_nat (Suc 0) = ''1''"
  "show_nat 2 = ''2''" "show_nat 3 = ''3''"
  by (simp_all add: show_nat.simps digit_def)

lemma sample_changes_additions:
  "parseDeltaToDiffChanges sample_stringify
     (JObj [(''b'', JArr [JNum 2]), (''c'', JArr [JNum 3])]) x y =
   [\<lparr>changeId = ''diff-0'', changeType = Addition, keyPath = ''b'',
     originalValue = None, modifiedValue = Some (JNum 2),
     lineNumber = \<lparr>ln_original = None, ln_modified = Some 1\<rparr>,
     displayText = ''b: 2'' @ label_added\<rparr>,
    \<lparr>changeId = ''diff-1'', changeType = Addition, keyPath = ''c'',
     originalValue = None, modifiedValue = Some (JNum 3),
     lineNumber = \<lparr>ln_original = None, ln_modified = Some 2\<rparr>,
     displayText = ''c: 3'' @ label_added\<rparr>]"
  by (simp add: parseDeltaToDiffChanges_def traverse_array_def sample_stringify_def
      show_nat_digits Let_def)

lemma sample_changes_root:
  "parseDeltaToDiffChanges sample_stringify (JArr [JArr [JNum 1], JNum 5]) x y =
   [\<lparr>changeId = ''diff-0'', changeType = Addition, keyPath = ''0'',
     originalValue = None, modifiedValue = Some (JNum 1),
     lineNumber = \<lparr>ln_original = None, ln_modified = Some 1\<rparr>,
     displayText = ''0: 1'' @ label_added\<rparr>]"
  by (simp add: parseDeltaToDiffChanges_def traverse_array_def sample_stringify_def
      show_nat_digits Let_def)

lemma sample_changes_root_rev:
  "parseDeltaToDiffChanges sample_stringify (JArr [JNum 5, JArr [JNum 1]]) x y =
   [\<lparr>changeId = ''diff-0'', changeType = Addition, keyPath = ''1'',
     originalValue = None, modifiedValue = Some (JNum 1),
     lineNumber = \<lparr>ln_original = None, ln_modified = Some 1\<rparr>,
     displayText = ''1: 1'' @ label_added\<rparr>]"
  by (simp add: parseDeltaToDiffChanges_def traverse_array_def sample_stringify_def
      show_nat_digits Let_def)

lemma charDiff_abc_abd:
  "calculateCharLevelDiff sample_host ''abc'' ''abd'' =
     [\<lparr>charType = CharEqual, char_value = ''ab'', startIndex = 0, char_length = 2\<rparr>,
      \<lparr>charType = CharRemove, char_value = ''c'', startIndex = 2, char_length = 1\<rparr>,
      \<lparr>charType = CharAdd, char_value = ''d'', startIndex = - 1, char_length = 1\<rparr>]"
  by (simp add: calculateCharLevelDiff_def sample_host_def diffChars_abc_abd
      convertToCharChange_def)

lemma sample_parse_texts:
  "JSON_parse sample_host text_a1 = Inr (JObj [(''a'', JNum 1)])"
  "JSON_parse sample_host text_a1_b2_c3
   = Inr (JObj [(''a'', JNum 1), (''b'', JNum 2), (''c'', JNum 3)])"
  "JSON_parse sample_host ''[1]'' = Inr (JArr [JNum 1])"
  "JSON_parse sample_host ''5'' = Inr (JNum 5)"
  "JSON_parse sample_host ''0'' = Inr (JNum 0)"
  "JSON_parse sample_host ''not json''
   = Inl (ErrorInstance ''Unexpected token o in JSON at position 1'')"
  by (simp_all add: sample_host_def sample_parse_def text_a1_def text_a1_b2_c3_def)

lemma sample_host_fields:
  "JSON_stringify sample_host = sample_stringify"
  "jsondiffpatch_diff sample_host = diff"
  "jsdiff_diffChars sample_host = diffChars"
  by (simp_all add: sample_host_def)

lemma sample_differences_additions:
  "differences (calculateDiffSync sample_host text_a1 text_a1_b2_c3 opts) =
   [\<lparr>changeId = ''diff-0'', changeType = Addition, keyPath = ''b'',
     originalValue = None, modifiedValue = Some (JNum 2),
     lineNumber = \<lparr>ln_original = None, ln_modified = Some 1\<rparr>,
     displayText = ''b: 2'' @ label_added\<rparr>,
    \<lparr>changeId = ''diff-1'', changeType = Addition, keyPath = ''c'',
     originalValue = None, modifiedValue = Some (JNum 3),
     lineNumber = \<lparr>ln_original = None, ln_modified = Some 2\<rparr>,
     displayText = ''c: 3'' @ label_added\<rparr>]"
  by (simp add: calculateDiffSync_cases sample_parse_texts sample_host_fields
      sample_delta_additions sample_changes_additions)

lemma sample_differences_root:
  "differences (calculateDiffSync sample_host ''[1]'' ''5'' opts) =
   [\<lparr>changeId = ''diff-0'', changeType = Addition, keyPath = ''0'',
     originalValue = None, modifiedValue = Some (JNum 1),
     lineNumber = \<lparr>ln_original = None, ln_modified = Some 1\<rparr>,
     displayText = ''0: 1'' @ label_added\<rparr>]"
  by (simp add: calculateDiffSync_cases sample_parse_texts sample_host_fields
      sample_delta_root sample_changes_root)

lemma sample_differences_root_rev:
  "differences (calculateDiffSync sample_host ''5'' ''[1]'' opts) =
   [\<lparr>changeId = ''diff-0'', changeType = Addition, keyPath = ''1'',
     originalValue = None, modifiedValue = Some (JNum 1),
     lineNumber = \<lparr>ln_original = None, ln_modified = Some 1\<rparr>,
     displayText = ''1: 1'' @ label_added\<rparr>]"
  by (simp add: calculateDiffSync_cases sample_parse_texts sample_host_fields
      sample_delta_root_rev sample_changes_root_rev)

lemma summary_is_calculateSummary:
  "JSON_parse h a = Inr x \<Longrightarrow> JSON_parse h b = Inr y \<Longrightarrow>
   summary (calculateDiffSync h a b opts)
   = calculateSummary (differences (calculateDiffSync h a b opts))"
  by (simp add: calculateDiffSync_cases)

lemma options_calculateDiffSync: "options (calculateDiffSync h a b opts) = mergeOptions opts"
  by (simp add: calculateDiffSync_cases errorComparison_def split: sum.splits)

lemma count_type_summary:
  "additionCount (calculateSummary ds) = count_type Addition ds"
  "deletionCount (calculateSummary ds) = count_type Deletion ds"
  "modificationCount (calculateSummary ds) = count_type Modification ds"
  by (simp_all add: calculateSummary_def count_type_def)

lemma differences_count:
  assumes "JSON_parse h a = Inr x" and "JSON_parse h b = Inr y"
    and "json_value x" and "json_value y" and "same_container x y"
  shows "count_type t (differences (calculateDiffSync (h\<lparr>jsondiffpatch_diff := diff\<rparr>) a b opts))
         = (if deep_equal x y then 0 else entry_count t (diff x y))"
proof (cases "deep_equal x y")
  case True
  then have "diff x y = JUndefined" by (rule diff_equal)
  then show ?thesis
    using assms(1,2) True
    by (simp add: calculateDiffSync_cases parse_empty_delta count_type_def)
next
  case False
  obtain es where es: "diff x y = JObj es"
    using diff_depth_container [OF assms(5) False, of 999]
    unfolding diff_def depth_cap_Suc by blast
  have "count_type t (parseDeltaToDiffChanges S (JObj es) x y) = entries_count t es" for S
    using parseDelta_count [of "JObj es" t S x y] by simp
  then show ?thesis
    using assms(1,2) False es by (simp add: calculateDiffSync_cases)
qed

section \<open>The claims\<close>

subsection \<open>C1: the summary invariant\<close>

text \<open>
  C1. Every Comparison that \<open>calculateDiffSync\<close> returns, in the completed state and in
  both error states, and whatever the parser and the delta engine of the host do, has a
  summary whose total is the sum of its addition, deletion and modification counts.
\<close>

theorem summary_invariant:
  "totalChanges (summary (calculateDiffSync h a b opts)) =
   additionCount (summary (calculateDiffSync h a b opts))
   + deletionCount (summary (calculateDiffSync h a b opts))
   + modificationCount (summary (calculateDiffSync h a b opts))"
  by (simp add: calculateDiffSync_cases summary_errorComparison EMPTY_DIFF_SUMMARY_def
      calculateSummary_total [symmetric] split: sum.splits)

subsection \<open>C2: the differences and \<open>maxDifferences\<close>\<close>

text \<open>
  C2 as stated, that the differences list has at most \<open>maxDifferences\<close> elements, fails:
  two keys added under a limit of one give a list of length two.
\<close>

theorem max_differences_counterexample:
  "\<not> int (length (differences (calculateDiffSync sample_host text_a1 text_a1_b2_c3 limit_one)))
     \<le> maxDifferences (options (calculateDiffSync sample_host text_a1 text_a1_b2_c3 limit_one))"
  by (simp add: sample_differences_additions options_calculateDiffSync
      mergeOptions_def limit_one_def no_options_def)

text \<open>
  C2, as amended. For every pair of valid JSON input texts and every options object, the
  differences list of the Comparison is the whole list the flattener makes of the delta
  (of the empty object when there is no delta): nothing is truncated, the list is the
  same whatever \<open>maxDifferences\<close> is given, and \<open>maxDifferences\<close> (default 500) is
  only recorded in the options of the Comparison.
\<close>

theorem differences_not_truncated:
  assumes "JSON_parse h a = Inr x" and "JSON_parse h b = Inr y"
  shows "differences (calculateDiffSync h a b opts)
         = parseDeltaToDiffChanges (JSON_stringify h)
             (if falsy (jsondiffpatch_diff h x y) then JObj [] else jsondiffpatch_diff h x y) x y
    \<and> differences (calculateDiffSync h a b (opts\<lparr>opt_maxDifferences := n\<rparr>))
        = differences (calculateDiffSync h a b opts)
    \<and> maxDifferences (options (calculateDiffSync h a b opts))
        = (case opt_maxDifferences opts of Some m \<Rightarrow> m | None \<Rightarrow> 500)"
  using assms
  by (simp add: calculateDiffSync_cases mergeOptions_def DEFAULT_DIFF_OPTIONS_def
      split: option.splits)

theorem differences_not_truncated_witness:
  "length (differences (calculateDiffSync sample_host text_a1 text_a1_b2_c3 limit_one)) = 2
   \<and> differences (calculateDiffSync sample_host text_a1 text_a1_b2_c3
        (limit_one\<lparr>opt_maxDifferences := None\<rparr>))
       = differences (calculateDiffSync sample_host text_a1 text_a1_b2_c3 limit_one)
   \<and> maxDifferences (options (calculateDiffSync sample_host text_a1 text_a1_b2_c3 limit_one)) = 1"
  using differences_not_truncated [OF sample_parse_texts(1) sample_parse_texts(2),
      of limit_one None]
  by (simp add: sample_host_fields sample_delta_additions sample_changes_additions
      limit_one_def no_options_def)

subsection \<open>C3: the original text is not valid JSON\<close>

text \<open>
  C3. When parsing the original text fails (the host parser throws an error with a
  non-empty message, as every runtime's \<open>JSON.parse\<close> does), \<open>calculateDiffSync\<close>
  returns, whatever the modified text, a Comparison with status \<open>error\<close>, the code
  \<open>PARSE_ERROR_ORIGINAL\<close>, the parser's message verbatim, no differences and an
  all-zero summary; it carries no delta, and the delta engine has no part in it.
\<close>

theorem parse_error_original:
  assumes "JSON_parse h a = Inl (ErrorInstance m)" and "m \<noteq> []"
  shows "status (calculateDiffSync h a b opts) = Error
    \<and> map_option code (error (calculateDiffSync h a b opts)) = Some PARSE_ERROR_ORIGINAL
    \<and> map_option message (error (calculateDiffSync h a b opts)) = Some m
    \<and> differences (calculateDiffSync h a b opts) = []
    \<and> totalChanges (summary (calculateDiffSync h a b opts)) = 0
    \<and> additionCount (summary (calculateDiffSync h a b opts)) = 0
    \<and> deletionCount (summary (calculateDiffSync h a b opts)) = 0
    \<and> modificationCount (summary (calculateDiffSync h a b opts)) = 0
    \<and> delta (calculateDiffSync h a b opts) = JUndefined
    \<and> calculateDiffSync (h\<lparr>jsondiffpatch_diff := f\<rparr>) a b opts = calculateDiffSync h a b opts"
  using assms
  by (simp add: calculateDiffSync_cases validateJSON_Inl errorComparison_def
      EMPTY_DIFF_SUMMARY_def)

theorem parse_error_original_witness:
  "status (calculateDiffSync sample_host ''not json'' ''{}'' no_options) = Error
   \<and> map_option code (error (calculateDiffSync sample_host ''not json'' ''{}'' no_options))
       = Some PARSE_ERROR_ORIGINAL
   \<and> map_option message (error (calculateDiffSync sample_host ''not json'' ''{}'' no_options))
       = Some ''Unexpected token o in JSON at position 1''
   \<and> differences (calculateDiffSync sample_host ''not json'' ''{}'' no_options) = []"
proof -
  have n: "''Unexpected token o in JSON at position 1'' \<noteq> []" by simp
  show ?thesis
    using parse_error_original [OF sample_parse_texts(6) n, of "''{}''" no_options] by simp
qed

subsection \<open>C4: a text compared with itself\<close>

text \<open>
  C4. For every valid JSON text (the host parser returns a JSON value for it), comparing
  the text with itself, with the delta engine of the spec, gives a Comparison with no
  differences, the four summary counts zero and the status \<open>completed\<close>.
\<close>

theorem equal_inputs_no_differences:
  assumes "JSON_parse h a = Inr v" and "json_value v"
  shows "differences (calculateDiffSync (h\<lparr>jsondiffpatch_diff := diff\<rparr>) a a opts) = []
    \<and> totalChanges (summary (calculateDiffSync (h\<lparr>jsondiffpatch_diff := diff\<rparr>) a a opts)) = 0
    \<and> additionCount (summary (calculateDiffSync (h\<lparr>jsondiffpatch_diff := diff\<rparr>) a a opts)) = 0
    \<and> deletionCount (summary (calculateDiffSync (h\<lparr>jsondiffpatch_diff := diff\<rparr>) a a opts)) = 0
    \<and> modificationCount (summary (calculateDiffSync (h\<lparr>jsondiffpatch_diff := diff\<rparr>) a a opts)) = 0
    \<and> status (calculateDiffSync (h\<lparr>jsondiffpatch_diff := diff\<rparr>) a a opts) = Completed"
proof -
  have "diff v v = JUndefined"
    using assms(2) by (simp add: deep_equal_refl diff_equal)
  then show ?thesis
    using assms(1) by (simp add: calculateDiffSync_cases parse_empty_delta calculateSummary_def)
qed

theorem equal_inputs_no_differences_witness:
  "differences (calculateDiffSync sample_host text_a1_b2_c3 text_a1_b2_c3 no_options) = []
   \<and> totalChanges (summary (calculateDiffSync sample_host text_a1_b2_c3 text_a1_b2_c3 no_options)) = 0
   \<and> status (calculateDiffSync sample_host text_a1_b2_c3 text_a1_b2_c3 no_options) = Completed"
proof -
  have j: "json_value (JObj [(''a'', JNum 1), (''b'', JNum 2), (''c'', JNum 3)])" by simp
  have h: "sample_host\<lparr>jsondiffpatch_diff := diff\<rparr> = sample_host"
    by (simp add: sample_host_def)
  show ?thesis
    using equal_inputs_no_differences [OF sample_parse_texts(2) j, of no_options] h by simp
qed

subsection \<open>C5: the character diff reconstructs both texts\<close>

text \<open>
  C5. With the character diff engine of the spec, for all strings \<open>a\<close> and \<open>b\<close> the
  values of the runs of \<open>calculateCharLevelDiff a b\<close> that are not of type \<open>remove\<close>,
  concatenated in order, are \<open>b\<close>, and those of the runs that are not of type \<open>add\<close> are
  \<open>a\<close>; and \<open>calculateCharLevelDiff abc abd\<close> is equal \<open>ab\<close>, remove \<open>c\<close>, add \<open>d\<close>, in
  that order.
\<close>

theorem char_diff_reconstructs:
  "concat (map char_value (filter (\<lambda>c. charType c \<noteq> CharRemove)
     (calculateCharLevelDiff (h\<lparr>jsdiff_diffChars := diffChars\<rparr>) a b))) = b
   \<and> concat (map char_value (filter (\<lambda>c. charType c \<noteq> CharAdd)
     (calculateCharLevelDiff (h\<lparr>jsdiff_diffChars := diffChars\<rparr>) a b))) = a
   \<and> map (\<lambda>c. (charType c, char_value c))
        (calculateCharLevelDiff (h\<lparr>jsdiff_diffChars := diffChars\<rparr>) ''abc'' ''abd'')
      = [(CharEqual, ''ab''), (CharRemove, ''c''), (CharAdd, ''d'')]"
  by (simp add: calculateCharLevelDiff_def char_loop_not_removed char_loop_not_added
      diffChars_new diffChars_old diffChars_abc_abd convertToCharChange_def)

subsection \<open>C6: the counts of the two directions\<close>

text \<open>
  C6. The claim: for valid JSON texts \<open>a\<close> and \<open>b\<close>, the summaries of comparing \<open>a\<close> with
  \<open>b\<close> and \<open>b\<close> with \<open>a\<close> have the addition and deletion counts exchanged and the same
  modification count. The code breaks it where the two roots are of different kinds:
  the delta of the spec (and of jsondiffpatch) is then the root entry \<open>[old, new]\<close>, and
  the flattener walks its two indices as if they were keys of a container. Comparing
  the array \<open>[1]\<close> with the number \<open>5\<close> counts one addition and no deletion in both
  directions, so the additions of one direction are not the deletions of the other.
\<close>

theorem root_change_counts:
  "delta (calculateDiffSync sample_host ''[1]'' ''5'' no_options) = JArr [JArr [JNum 1], JNum 5]
   \<and> additionCount (summary (calculateDiffSync sample_host ''[1]'' ''5'' no_options)) = 1
   \<and> deletionCount (summary (calculateDiffSync sample_host ''[1]'' ''5'' no_options)) = 0
   \<and> delta (calculateDiffSync sample_host ''5'' ''[1]'' no_options) = JArr [JNum 5, JArr [JNum 1]]
   \<and> additionCount (summary (calculateDiffSync sample_host ''5'' ''[1]'' no_options)) = 1
   \<and> deletionCount (summary (calculateDiffSync sample_host ''5'' ''[1]'' no_options)) = 0
   \<and> additionCount (summary (calculateDiffSync sample_host ''[1]'' ''5'' no_options))
       \<noteq> deletionCount (summary (calculateDiffSync sample_host ''5'' ''[1]'' no_options))"
proof -
  have s1: "summary (calculateDiffSync sample_host ''[1]'' ''5'' no_options)
            = calculateSummary (differences (calculateDiffSync sample_host ''[1]'' ''5'' no_options))"
    by (rule summary_is_calculateSummary [OF sample_parse_texts(3) sample_parse_texts(4)])
  have s2: "summary (calculateDiffSync sample_host ''5'' ''[1]'' no_options)
            = calculateSummary (differences (calculateDiffSync sample_host ''5'' ''[1]'' no_options))"
    by (rule summary_is_calculateSummary [OF sample_parse_texts(4) sample_parse_texts(3)])
  have d1: "delta (calculateDiffSync sample_host ''[1]'' ''5'' no_options)
            = JArr [JArr [JNum 1], JNum 5]"
    by (simp add: calculateDiffSync_cases sample_parse_texts sample_host_fields sample_delta_root)
  have d2: "delta (calculateDiffSync sample_host ''5'' ''[1]'' no_options)
            = JArr [JNum 5, JArr [JNum 1]]"
    by (simp add: calculateDiffSync_cases sample_parse_texts sample_host_fields
        sample_delta_root_rev)
  show ?thesis
    by (simp add: s1 s2 d1 d2 sample_differences_root sample_differences_root_rev
        calculateSummary_def)
qed

text \<open>
  Where the two roots are both objects or both arrays, the counts of the two directions
  are as the claim says: the additions of one are the deletions of the other, and the
  modifications are the same.
\<close>

lemma counts_swap_same_container:
  assumes "JSON_parse h a = Inr x" and "JSON_parse h b = Inr y"
    and "json_value x" and "json_value y" and "same_container x y"
  shows "additionCount (summary (calculateDiffSync (h\<lparr>jsondiffpatch_diff := diff\<rparr>) a b o1))
         = deletionCount (summary (calculateDiffSync (h\<lparr>jsondiffpatch_diff := diff\<rparr>) b a o2))
    \<and> deletionCount (summary (calculateDiffSync (h\<lparr>jsondiffpatch_diff := diff\<rparr>) a b o1))
         = additionCount (summary (calculateDiffSync (h\<lparr>jsondiffpatch_diff := diff\<rparr>) b a o2))
    \<and> modificationCount (summary (calculateDiffSync (h\<lparr>jsondiffpatch_diff := diff\<rparr>) a b o1))
         = modificationCount (summary (calculateDiffSync (h\<lparr>jsondiffpatch_diff := diff\<rparr>) b a o2))"
proof -
  let ?h = "h\<lparr>jsondiffpatch_diff := diff\<rparr>"
  have p: "JSON_parse ?h a = Inr x" "JSON_parse ?h b = Inr y"
    using assms(1,2) by simp_all
  have sc: "same_container y x" using assms(5) by (simp add: same_container_sym)
  have eq: "deep_equal y x = deep_equal x y"
    by (rule deep_equal_sym_iff [OF assms(3,4)])
  have sym: "entry_count t (diff x y) = entry_count (reverse_type t) (diff y x)"
    if "\<not> deep_equal x y" for t
    using diff_depth_sym [OF assms(3,4) that] by (simp add: diff_def)
  have fwd: "count_type t (differences (calculateDiffSync ?h a b o1))
             = (if deep_equal x y then 0 else entry_count t (diff x y))" for t
    by (rule differences_count [OF assms])
  have bwd: "count_type t (differences (calculateDiffSync ?h b a o2))
             = (if deep_equal x y then 0 else entry_count t (diff y x))" for t
    using differences_count [OF assms(2,1,4,3) sc, of t o2] eq by simp
  have s1: "summary (calculateDiffSync ?h a b o1)
            = calculateSummary (differences (calculateDiffSync ?h a b o1))"
    by (rule summary_is_calculateSummary [OF p])
  have s2: "summary (calculateDiffSync ?h b a o2)
            = calculateSummary (differences (calculateDiffSync ?h b a o2))"
    by (rule summary_is_calculateSummary [OF p(2,1)])
  show ?thesis
    using sym [of Addition] sym [of Deletion] sym [of Modification]
    by (simp add: s1 s2 count_type_summary fwd bwd)
qed

subsection \<open>C7: the start index of a character change\<close>

text \<open>
  C7. In the list \<open>calculateCharLevelDiff\<close> returns, whatever runs the diff library
  gives, a change of type \<open>add\<close> has the start index \<open>-1\<close>, and a change of type
  \<open>equal\<close> or \<open>remove\<close> has as start index the sum of the lengths of the non-add
  changes before it: the offset in the original text consumed so far. The length of a
  change is the length of its value.
\<close>

theorem char_change_start_index:
  "i < length (calculateCharLevelDiff h a b) \<Longrightarrow>
   (charType (calculateCharLevelDiff h a b ! i) = CharAdd \<longrightarrow>
      startIndex (calculateCharLevelDiff h a b ! i) = - 1)
   \<and> (charType (calculateCharLevelDiff h a b ! i) \<noteq> CharAdd \<longrightarrow>
        startIndex (calculateCharLevelDiff h a b ! i)
        = int (sum_list (map char_length
            (filter (\<lambda>d. charType d \<noteq> CharAdd) (take i (calculateCharLevelDiff h a b))))))
   \<and> char_length (calculateCharLevelDiff h a b ! i)
       = length (char_value (calculateCharLevelDiff h a b ! i))"
  unfolding calculateCharLevelDiff_def
  using char_loop_index [of i "jsdiff_diffChars h a b" 0] by simp

theorem char_change_start_index_witness:
  "startIndex (calculateCharLevelDiff sample_host ''abc'' ''abd'' ! 1) = 2
   \<and> charType (calculateCharLevelDiff sample_host ''abc'' ''abd'' ! 1) = CharRemove
   \<and> startIndex (calculateCharLevelDiff sample_host ''abc'' ''abd'' ! 2) = - 1
   \<and> charType (calculateCharLevelDiff sample_host ''abc'' ''abd'' ! 2) = CharAdd"
  using char_change_start_index [of 1 sample_host "''abc''" "''abd''"]
        char_change_start_index [of 2 sample_host "''abc''" "''abd''"]
  by (simp add: charDiff_abc_abd)

subsection \<open>C8: the display text of a change\<close>

text \<open>
  C8 as stated, with the English label \<open>(added)\<close> after an addition, fails. The delta
  with the entries \<open>b: [2]\<close> and \<open>c: [3]\<close> is flattened to two additions, and the first,
  the key \<open>b\<close> added with the value \<open>2\<close>, rendered \<open>2\<close>, is not displayed as
  \<open>b: 2 (added)\<close>.
\<close>

theorem display_text_counterexample:
  "changeType (hd (parseDeltaToDiffChanges sample_stringify
      (JObj [(''b'', JArr [JNum 2]), (''c'', JArr [JNum 3])]) JNull JNull)) = Addition
   \<and> keyPath (hd (parseDeltaToDiffChanges sample_stringify
      (JObj [(''b'', JArr [JNum 2]), (''c'', JArr [JNum 3])]) JNull JNull)) = ''b''
   \<and> modifiedValue (hd (parseDeltaToDiffChanges sample_stringify
      (JObj [(''b'', JArr [JNum 2]), (''c'', JArr [JNum 3])]) JNull JNull)) = Some (JNum 2)
   \<and> sample_stringify (JNum 2) = ''2''
   \<and> displayText (hd (parseDeltaToDiffChanges sample_stringify
      (JObj [(''b'', JArr [JNum 2]), (''c'', JArr [JNum 3])]) JNull JNull)) \<noteq> ''b: 2 (added)''"
  by (simp add: sample_changes_additions sample_stringify_def show_nat_digits label_added_def)

text \<open>
  C8, as amended. For every change the flattener emits, the display text is the key path,
  a colon and a blank, and then: for an addition the rendering of the new value and the
  label \<open>label_added\<close>; for a deletion the rendering of the old value and the label
  \<open>label_removed\<close>; for a modification the rendering of the old value, the arrow between
  two blanks, and the rendering of the new value. The two labels are the Chinese words
  of the source, not \<open>(added)\<close> and \<open>(removed)\<close>.
\<close>

theorem display_text_per_type:
  "c \<in> set (parseDeltaToDiffChanges S d x y) \<Longrightarrow> display_ok S c"
proof -
  have "list_all (display_ok S) (parseDeltaToDiffChanges S d x y)"
    unfolding parseDeltaToDiffChanges_def
    using traverse_invariant(1) [of "display_ok S" S "[]" d x y "[]" 1]
    by (simp add: traverse_array_display del: traverse.simps)
  then show "c \<in> set (parseDeltaToDiffChanges S d x y) \<Longrightarrow> display_ok S c"
    by (simp add: list_all_iff)
qed

theorem display_text_per_type_witness:
  "display_ok sample_stringify
     \<lparr>changeId = ''diff-1'', changeType = Addition, keyPath = ''c'',
      originalValue = None, modifiedValue = Some (JNum 3),
      lineNumber = \<lparr>ln_original = None, ln_modified = Some 2\<rparr>,
      displayText = ''c: 3'' @ label_added\<rparr>"
  using display_text_per_type [of
      "\<lparr>changeId = ''diff-1'', changeType = Addition, keyPath = ''c'',
        originalValue = None, modifiedValue = Some (JNum 3),
        lineNumber = \<lparr>ln_original = None, ln_modified = Some 2\<rparr>,
        displayText = ''c: 3'' @ label_added\<rparr>"
      sample_stringify "JObj [(''b'', JArr [JNum 2]), (''c'', JArr [JNum 3])]" JNull JNull]
  by (simp add: sample_changes_additions)

subsection \<open>C9: the options\<close>

text \<open>
  C9. For all input texts and any two options objects the Comparisons of
  \<open>calculateDiffSync\<close> have the same delta, the same differences and the same summary:
  no option influences the computed diff. The options are only echoed back, merged over
  the defaults, in the \<open>options\<close> of the Comparison.
\<close>

theorem options_only_echoed:
  "delta (calculateDiffSync h a b o1) = delta (calculateDiffSync h a b o2)
   \<and> differences (calculateDiffSync h a b o1) = differences (calculateDiffSync h a b o2)
   \<and> summary (calculateDiffSync h a b o1) = summary (calculateDiffSync h a b o2)
   \<and> options (calculateDiffSync h a b o1) = mergeOptions o1
   \<and> options (calculateDiffSync h a b o2) = mergeOptions o2"
  by (simp add: calculateDiffSync_cases errorComparison_def split: sum.splits)

subsection \<open>C10: the JSON Patch of a falsy document\<close>

text \<open>
  C10. \<open>generateJSONPatch\<close> returns the empty patch, and does not throw, whenever the
  parsed original or the parsed modified value of the comparison is falsy. That is so
  when a side did not validate, and also for a completed comparison of valid documents
  one of which is a falsy scalar: \<open>0\<close>, \<open>false\<close>, \<open>null\<close> or the empty string.
\<close>

theorem json_patch_empty_on_falsy:
  "(falsy (originalParsed c) \<or> falsy (modifiedParsed c) \<longrightarrow> generateJSONPatch h c = Inr [])
   \<and> (JSON_parse h a = Inr x \<and> JSON_parse h b = Inr y \<and> (falsy x \<or> falsy y) \<longrightarrow>
        status (calculateDiffSync h a b opts) = Completed
        \<and> generateJSONPatch h (calculateDiffSync h a b opts) = Inr [])
   \<and> falsy (JNum 0) \<and> falsy (JBool False) \<and> falsy JNull \<and> falsy (JStr [])"
  by (auto simp: generateJSONPatch_def calculateDiffSync_cases)

theorem json_patch_empty_on_falsy_witness:
  "status (calculateDiffSync sample_host ''0'' ''5'' no_options) = Completed
   \<and> originalParsed (calculateDiffSync sample_host ''0'' ''5'' no_options) = JNum 0
   \<and> generateJSONPatch sample_host (calculateDiffSync sample_host ''0'' ''5'' no_options) = Inr []
   \<and> fast_json_patch_compare sample_host (JNum 0) (JNum 5) = Inl NotAnError"
proof -
  have o: "originalParsed (calculateDiffSync sample_host ''0'' ''5'' no_options) = JNum 0"
    by (simp add: calculateDiffSync_cases sample_parse_texts)
  have c: "fast_json_patch_compare sample_host (JNum 0) (JNum 5) = Inl NotAnError"
    by (simp add: sample_host_def)
  show ?thesis
    using json_patch_empty_on_falsy [of "calculateDiffSync sample_host ''0'' ''5'' no_options"
        sample_host "''0''" "JNum 0" "''5''" "JNum 5" no_options]
      sample_parse_texts(4) sample_parse_texts(5) o c
    by simp
qed

end
